theory Spec2Isabelle
  imports Main
begin

section \<open>The RAINS server engine: data model\<close>

text \<open>
  A Go panic (an index or a slice bound out of range) is a value: every function that
  can panic returns \<open>panic + 'a\<close>, with \<open>Inl\<close> for the panic.
\<close>

datatype panic = IndexOutOfRange

subsection \<open>Strings\<close>

text \<open>
  Go's \<open>strings.Split(s, sep)\<close> for a one-byte separator: the pieces of \<open>s\<close> between
  the occurrences of the separator, one more piece than there are separators (so the
  empty string gives one empty piece). \<open>strings.Join\<close> puts the separator between the
  elements.
\<close>

fun Split :: "string \<Rightarrow> char \<Rightarrow> string list" where
  "Split [] sep = [[]]"
| "Split (c # cs) sep =
     (if c = sep then [] # Split cs sep
      else (case Split cs sep of [] \<Rightarrow> [[c]] | w # ws \<Rightarrow> (c # w) # ws))"

fun Join :: "string list \<Rightarrow> string \<Rightarrow> string" where
  "Join [] sep = []"
| "Join [w] sep = w"
| "Join (w # v # ws) sep = w @ sep @ Join (v # ws) sep"

subsection \<open>Objects (rainslib/objects.go)\<close>

text \<open>
  \<open>bytes.Compare\<close>: lexicographic comparison of byte slices, with result -1, 0 or 1.
  Go compares strings with \<open><\<close> and \<open>>\<close> in the same bytewise order.
\<close>

fun bytes_Compare :: "nat list \<Rightarrow> nat list \<Rightarrow> int" where
  "bytes_Compare [] [] = 0"
| "bytes_Compare [] (y # ys) = - 1"
| "bytes_Compare (x # xs) [] = 1"
| "bytes_Compare (x # xs) (y # ys) =
     (if x < y then - 1 else if x > y then 1 else bytes_Compare xs ys)"

definition string_less :: "string \<Rightarrow> string \<Rightarrow> bool" where
  "string_less a b = (bytes_Compare (map of_char a) (map of_char b) = - 1)"

type_synonym ObjectType = int

definition OTName :: ObjectType where "OTName = 1"
definition OTIP6Addr :: ObjectType where "OTIP6Addr = 2"
definition OTIP4Addr :: ObjectType where "OTIP4Addr = 3"
definition OTRedirection :: ObjectType where "OTRedirection = 4"
definition OTDelegation :: ObjectType where "OTDelegation = 5"
definition OTNameset :: ObjectType where "OTNameset = 6"
definition OTCertInfo :: ObjectType where "OTCertInfo = 7"
definition OTServiceInfo :: ObjectType where "OTServiceInfo = 8"
definition OTRegistrar :: ObjectType where "OTRegistrar = 9"
definition OTRegistrant :: ObjectType where "OTRegistrant = 10"
definition OTInfraKey :: ObjectType where "OTInfraKey = 11"
definition OTExtraKey :: ObjectType where "OTExtraKey = 12"
definition OTNextKey :: ObjectType where "OTNextKey = 13"

record NameObject =
  no_Name :: string
  no_Types :: "ObjectType list"

text \<open>
  \<open>PublicKey.Key\<close> is an \<open>interface{}\<close>: an ed25519 key (a byte slice) or a value of
  any other dynamic type.
\<close>

datatype KeyValue = Ed25519Key "nat list" | OtherKey

record PublicKey =
  pk_Type :: int
  pk_KeySpace :: int
  pk_Key :: KeyValue
  pk_ValidSince :: int
  pk_ValidUntil :: int

record CertificateObject =
  co_Type :: int
  co_Usage :: int
  co_HashAlgo :: int
  co_Data :: "nat list"

record ServiceInfo =
  si_Name :: string
  si_Port :: nat
  si_Priority :: nat

text \<open>
  \<open>Object.Value\<close> is an \<open>interface{}\<close>; the constructors are the dynamic types
  \<open>CompareTo\<close> switches on, and \<open>VOther\<close> stands for every other one. Nothing ties
  the dynamic type of the value to \<open>Object.Type\<close>.
\<close>

datatype ObjectValue =
    VName NameObject
  | VString string
  | VPublicKey PublicKey
  | VNameset string
  | VCertificate CertificateObject
  | VServiceInfo ServiceInfo
  | VOther

record Object =
  obj_Type :: ObjectType
  obj_Value :: ObjectValue

text \<open>
  The loop of \<open>NameObject.CompareTo\<close> ranges over the receiver's \<open>Types\<close> and reads
  \<open>nameObj.Types[i]\<close> without a bound check: it panics when the argument's slice is
  the shorter one and the common part is equal.
\<close>

fun compareTypes :: "ObjectType list \<Rightarrow> ObjectType list \<Rightarrow> panic + int" where
  "compareTypes [] us = Inr 0"
| "compareTypes (t # ts) [] = Inl IndexOutOfRange"
| "compareTypes (t # ts) (u # us) =
     (if t < u then Inr (- 1) else if t > u then Inr 1 else compareTypes ts us)"

definition NameObject_CompareTo :: "NameObject \<Rightarrow> NameObject \<Rightarrow> panic + int" where
  "NameObject_CompareTo n nameObj =
     (if string_less (no_Name n) (no_Name nameObj) then Inr (- 1)
      else if string_less (no_Name nameObj) (no_Name n) then Inr 1
      else compareTypes (no_Types n) (no_Types nameObj))"

definition PublicKey_CompareTo :: "PublicKey \<Rightarrow> PublicKey \<Rightarrow> int" where
  "PublicKey_CompareTo p pkey =
     (if pk_Type p < pk_Type pkey then - 1
      else if pk_Type p > pk_Type pkey then 1
      else if pk_KeySpace p < pk_KeySpace pkey then - 1
      else if pk_KeySpace p > pk_KeySpace pkey then 1
      else if pk_ValidSince p < pk_ValidSince pkey then - 1
      else if pk_ValidSince p > pk_ValidSince pkey then 1
      else if pk_ValidUntil p < pk_ValidUntil pkey then - 1
      else if pk_ValidUntil p > pk_ValidUntil pkey then 1
      else (case pk_Key p of
              Ed25519Key k1 \<Rightarrow>
                (case pk_Key pkey of Ed25519Key k2 \<Rightarrow> bytes_Compare k1 k2 | OtherKey \<Rightarrow> 0)
            | OtherKey \<Rightarrow> 0))"

definition CertificateObject_CompareTo :: "CertificateObject \<Rightarrow> CertificateObject \<Rightarrow> int" where
  "CertificateObject_CompareTo c cert =
     (if co_Type c < co_Type cert then - 1
      else if co_Type c > co_Type cert then 1
      else if co_Usage c < co_Usage cert then - 1
      else if co_Usage c > co_Usage cert then 1
      else if co_HashAlgo c < co_HashAlgo cert then - 1
      else if co_HashAlgo c > co_HashAlgo cert then 1
      else bytes_Compare (co_Data c) (co_Data cert))"

definition ServiceInfo_CompareTo :: "ServiceInfo \<Rightarrow> ServiceInfo \<Rightarrow> int" where
  "ServiceInfo_CompareTo s serviceInfo =
     (if string_less (si_Name s) (si_Name serviceInfo) then - 1
      else if string_less (si_Name serviceInfo) (si_Name s) then 1
      else if si_Port s < si_Port serviceInfo then - 1
      else if si_Port s > si_Port serviceInfo then 1
      else if si_Priority s < si_Priority serviceInfo then - 1
      else if si_Priority s > si_Priority serviceInfo then 1
      else 0)"

text \<open>
  \<open>Object.CompareTo\<close>. Where the two values have different dynamic types the source
  logs the mismatch and falls through to \<open>return 0\<close>; the log calls do not change the
  result and are left out of this pure function.
\<close>

definition Object_CompareTo :: "Object \<Rightarrow> Object \<Rightarrow> panic + int" where
  "Object_CompareTo o1 object =
     (if obj_Type o1 < obj_Type object then Inr (- 1)
      else if obj_Type o1 > obj_Type object then Inr 1
      else (case obj_Value o1 of
          VName v1 \<Rightarrow>
            (case obj_Value object of VName v2 \<Rightarrow> NameObject_CompareTo v1 v2 | _ \<Rightarrow> Inr 0)
        | VString v1 \<Rightarrow>
            (case obj_Value object of
               VString v2 \<Rightarrow>
                 (if string_less v1 v2 then Inr (- 1)
                  else if string_less v2 v1 then Inr 1 else Inr 0)
             | _ \<Rightarrow> Inr 0)
        | VPublicKey v1 \<Rightarrow>
            (case obj_Value object of
               VPublicKey v2 \<Rightarrow> Inr (PublicKey_CompareTo v1 v2) | _ \<Rightarrow> Inr 0)
        | VNameset v1 \<Rightarrow>
            (case obj_Value object of
               VNameset v2 \<Rightarrow>
                 (if string_less v1 v2 then Inr (- 1)
                  else if string_less v2 v1 then Inr 1 else Inr 0)
             | _ \<Rightarrow> Inr 0)
        | VCertificate v1 \<Rightarrow>
            (case obj_Value object of
               VCertificate v2 \<Rightarrow> Inr (CertificateObject_CompareTo v1 v2) | _ \<Rightarrow> Inr 0)
        | VServiceInfo v1 \<Rightarrow>
            (case obj_Value object of
               VServiceInfo v2 \<Rightarrow> Inr (ServiceInfo_CompareTo v1 v2) | _ \<Rightarrow> Inr 0)
        | VOther \<Rightarrow> Inr 0))"

subsection \<open>Sections, queries and messages\<close>

text \<open>
  A token is a \<open>[16]byte\<close>; \<open>emptyToken\<close> is the literal \<open>[16]byte{}\<close> that
  assertShard and assertZone pass for contained sections.
\<close>

type_synonym Token = "nat list"

definition emptyToken :: Token where
  "emptyToken = replicate 16 0"

record ConnInfo =
  ci_Type :: int
  ci_IPAddr :: string
  ci_Port :: nat

text \<open>
  Modelled from the spec: the method \<open>ConnInfo.Equal\<close> is not among the source files covered here;
  query uses it to tell whether the delegate equals this server's own address.
\<close>

definition ConnInfo_Equal :: "ConnInfo \<Rightarrow> ConnInfo \<Rightarrow> bool" where
  "ConnInfo_Equal c d = (c = d)"

text \<open>
  The section types are declared in rainslib, outside the source files covered here. The engine
  reads the fields below; the methods \<open>ValidFrom()\<close> and \<open>ValidUntil()\<close> are
  modelled as fields that hold their results. The content of a zone is a list of
  sections of any kind.
\<close>

record AssertionSection =
  as_SubjectName :: string
  as_SubjectZone :: string
  as_Context :: string
  as_Content :: "Object list"
  as_ValidFrom :: int
  as_ValidUntil :: int

record ShardSection =
  ss_Content :: "AssertionSection list"
  ss_Context :: string
  ss_SubjectZone :: string
  ss_RangeFrom :: string
  ss_RangeTo :: string
  ss_ValidFrom :: int
  ss_ValidUntil :: int

datatype MessageSection =
    Assertion AssertionSection
  | Shard ShardSection
  | Zone ZoneSection
  | OtherSection
and ZoneSection =
    ZoneSection (zs_Content: "MessageSection list") (zs_Context: string)
      (zs_SubjectZone: string) (zs_ValidFrom: int) (zs_ValidUntil: int)

datatype QueryOption =
    MinE2ELatency | MinLastHopAnswerSize | MinInfoLeakage | CachedAnswersOnly
  | ExpiredAssertionsOk | TokenTracing | NoVerificationDelegation | NoProactiveCaching

datatype NotificationType =
    Heartbeat | CapHashNotKnown | BadMessage | RcvInconsistentMsg | NoAssertionsExist
  | MsgTooLarge | UnspecServerErr | ServerNotCapable | NoAssertionAvail

record QuerySection =
  qs_Token :: Token
  qs_Name :: string
  qs_Context :: string
  qs_Type :: ObjectType
  qs_Expires :: int
  qs_Options :: "QueryOption list"

text \<open>
  Modelled from the spec: \<open>QuerySection.ContainsOption\<close> is declared in rainslib,
  outside the source files covered here; it is the test \<open>q.options \<ni> opt\<close>.
\<close>

definition ContainsOption :: "QuerySection \<Rightarrow> QueryOption \<Rightarrow> bool" where
  "ContainsOption q opt = (opt \<in> set (qs_Options q))"

record RainsMessage =
  rm_Content :: "MessageSection list"
  rm_Token :: Token

record sectionWithSigSender =
  sws_Section :: MessageSection
  sws_Sender :: ConnInfo
  sws_Token :: Token

record msgSectionSender =
  mss_Section :: MessageSection
  mss_Sender :: ConnInfo
  mss_Token :: Token

record assertionCacheValue =
  acv_section :: AssertionSection
  acv_validFrom :: int
  acv_validUntil :: int

record negativeAssertionCacheValue =
  ncv_section :: MessageSection
  ncv_validFrom :: int
  ncv_validUntil :: int

record pendingQuerySetValue =
  pq_connInfo :: ConnInfo
  pq_token :: Token
  pq_validUntil :: int

subsection \<open>The pending-query cache\<close>

text \<open>
  Modelled from the spec: the type pendingQueryCache and its methods Add and
  GetAllAndDelete are not among the source files covered here. The spec (4.4): the cache is
  capacity-bounded and rejects new inserts when full; \<open>add(context, zone, name, type,
  entry)\<close> records a waiter, keyed internally by the upstream token assigned when the
  query was forwarded (the only token the call carries is the one inside the entry);
  \<open>getAllAndDelete(token)\<close> fetches and removes all waiters of that token in one step.
  The boolean tells whether there was any.
\<close>

record pendingQueryCache =
  pqc_capacity :: nat
  pqc_entries :: "(Token \<times> pendingQuerySetValue) list"

definition pendingQueries_Add ::
  "string \<Rightarrow> string \<Rightarrow> string \<Rightarrow> ObjectType \<Rightarrow> pendingQuerySetValue \<Rightarrow>
   pendingQueryCache \<Rightarrow> pendingQueryCache" where
  "pendingQueries_Add context zone name objType v c =
     (if length (pqc_entries c) < pqc_capacity c
      then c\<lparr>pqc_entries := pqc_entries c @ [(pq_token v, v)]\<rparr>
      else c)"

definition pendingQueries_GetAllAndDelete ::
  "Token \<Rightarrow> pendingQueryCache \<Rightarrow> (pendingQuerySetValue list \<times> bool) \<times> pendingQueryCache" where
  "pendingQueries_GetAllAndDelete t c =
     (let vs = map snd (filter (\<lambda>e. fst e = t) (pqc_entries c)) in
      ((vs, vs \<noteq> []), c\<lparr>pqc_entries := filter (\<lambda>e. fst e \<noteq> t) (pqc_entries c)\<rparr>))"

subsection \<open>The engine's state, environment and outputs\<close>

text \<open>
  What the engine sends and logs is collected in order. \<open>sendTo\<close>,
  \<open>sendNotificationMsg\<close>, \<open>sendQuery\<close>, the channel \<open>normalChannel\<close> and the logger
  are outside the source files covered here: each call is one event with the call's arguments (a
  log call keeps its level and message).
\<close>

datatype LogLevel = LvlDebug | LvlInfo | LvlWarn | LvlError

datatype event =
    SendTo "nat list" ConnInfo
  | SendNotificationMsg Token ConnInfo NotificationType
  | SendQuery string string int ObjectType Token ConnInfo
  | NormalChannel msgSectionSender
  | Log LogLevel string

text \<open>
  The assertion cache, the negative-assertion cache and the pending-signature cache are
  interfaces whose implementations are outside the source files covered here, and so are the
  consistency checks, the delegation lookup, the message encoder and the token
  generator: they are parameters. A cache lookup returns the cache as well, since it may
  reorder it. The clock is read once per call of the engine (\<open>now\<close>, in unix seconds; the
  configured durations are in seconds), and the i-th call of \<open>GenerateToken\<close> returns
  \<open>GenerateToken env i\<close>.
\<close>

record ('ac, 'nc, 'ps) environment =
  now :: int
  MaxCacheAssertionValidity :: int
  MaxCacheShardValidity :: int
  MaxCacheZoneValidity :: int
  AssertionQueryValidity :: int
  serverConnInfo :: ConnInfo
  GenerateToken :: "nat \<Rightarrow> Token"
  ParseRainsMsg :: "RainsMessage \<Rightarrow> nat list option"
  assertionsCache_Add ::
    "string \<Rightarrow> string \<Rightarrow> string \<Rightarrow> ObjectType \<Rightarrow> bool \<Rightarrow> assertionCacheValue \<Rightarrow> 'ac \<Rightarrow> 'ac"
  assertionsCache_Get ::
    "string \<Rightarrow> string \<Rightarrow> string \<Rightarrow> ObjectType \<Rightarrow> bool \<Rightarrow> 'ac \<Rightarrow>
     (AssertionSection list \<times> bool) \<times> 'ac"
  negAssertionCache_Add ::
    "string \<Rightarrow> string \<Rightarrow> bool \<Rightarrow> negativeAssertionCacheValue \<Rightarrow> 'nc \<Rightarrow> 'nc"
  negAssertionCache_Get ::
    "string \<Rightarrow> string \<Rightarrow> string \<Rightarrow> 'nc \<Rightarrow> (MessageSection \<times> bool) \<times> 'nc"
  pendingSignatures_GetAllAndDelete ::
    "string \<Rightarrow> string \<Rightarrow> 'ps \<Rightarrow> (msgSectionSender list \<times> bool) \<times> 'ps"
  getDelegationAddress :: "string \<Rightarrow> string \<Rightarrow> 'ac \<Rightarrow> ConnInfo"
  isAssertionConsistent :: "'ac \<Rightarrow> 'nc \<Rightarrow> AssertionSection \<Rightarrow> bool"
  isShardConsistent :: "'ac \<Rightarrow> 'nc \<Rightarrow> ShardSection \<Rightarrow> bool"
  isZoneConsistent :: "'ac \<Rightarrow> 'nc \<Rightarrow> ZoneSection \<Rightarrow> bool"

record ('ac, 'nc, 'ps) engine =
  assertionsCache :: 'ac
  negAssertionCache :: 'nc
  pendingQueries :: pendingQueryCache
  pendingSignatures :: 'ps
  tokensGenerated :: nat
  out :: "event list"

definition emit :: "event \<Rightarrow> ('ac, 'nc, 'ps) engine \<Rightarrow> ('ac, 'nc, 'ps) engine" where
  "emit e st = st\<lparr>out := out st @ [e]\<rparr>"

subsection \<open>Answering pending queries\<close>

definition sendQueryAnswer ::
  "('ac, 'nc, 'ps) environment \<Rightarrow> MessageSection \<Rightarrow> ConnInfo \<Rightarrow> Token \<Rightarrow>
   ('ac, 'nc, 'ps) engine \<Rightarrow> ('ac, 'nc, 'ps) engine" where
  "sendQueryAnswer env section sender token st =
     (case ParseRainsMsg env \<lparr>rm_Content = [section], rm_Token = token\<rparr> of
        None \<Rightarrow> emit (Log LvlError ''Was not able to parse message'') st
      | Some byteMsg \<Rightarrow> emit (SendTo byteMsg sender) st)"

text \<open>The loop of handlePendingQueries over the fetched values.\<close>

fun answerWaiters ::
  "('ac, 'nc, 'ps) environment \<Rightarrow> MessageSection \<Rightarrow> pendingQuerySetValue list \<Rightarrow>
   ('ac, 'nc, 'ps) engine \<Rightarrow> ('ac, 'nc, 'ps) engine" where
  "answerWaiters env section [] st = st"
| "answerWaiters env section (v # vs) st =
     answerWaiters env section vs
       (if pq_validUntil v > now env
        then sendQueryAnswer env section (pq_connInfo v) (pq_token v) st
        else emit (Log LvlInfo ''Query expired in pendingQuery queue.'') st)"

definition handlePendingQueries ::
  "('ac, 'nc, 'ps) environment \<Rightarrow> MessageSection \<Rightarrow> Token \<Rightarrow>
   ('ac, 'nc, 'ps) engine \<Rightarrow> ('ac, 'nc, 'ps) engine" where
  "handlePendingQueries env section token st =
     (case pendingQueries_GetAllAndDelete token (pendingQueries st) of
        ((values, ok), pq') \<Rightarrow>
          (let st1 = st\<lparr>pendingQueries := pq'\<rparr> in
           if ok then answerWaiters env section values st1 else st1))"

subsection \<open>getZoneAndName\<close>

record zoneAndName =
  zan_zone :: string
  zan_name :: string

text \<open>
  \<open>names[0]\<close> and \<open>names[1:]\<close> panic on an empty slice; the model keeps that branch.
\<close>

definition getZoneAndName :: "string \<Rightarrow> panic + zoneAndName list" where
  "getZoneAndName qname =
     (let names = Split qname (CHR ''.'') in
      case names of
        [] \<Rightarrow> Inl IndexOutOfRange
      | n # rest \<Rightarrow> Inr [\<lparr>zan_zone = Join rest ''.'', zan_name = n\<rparr>])"

subsection \<open>assert: validity of a section\<close>

definition getAssertionValidity ::
  "('ac, 'nc, 'ps) environment \<Rightarrow> AssertionSection \<Rightarrow> ('ac, 'nc, 'ps) engine \<Rightarrow>
   (int \<times> int \<times> bool) \<times> ('ac, 'nc, 'ps) engine" where
  "getAssertionValidity env a st =
     (let validFrom = as_ValidFrom a; validUntil = as_ValidUntil a in
      if validFrom > now env + MaxCacheAssertionValidity env
      then ((0, 0, False),
            emit (Log LvlWarn ''Assertion validity starts too much in the future. Drop Assertion.'') st)
      else if validUntil > now env + MaxCacheAssertionValidity env
      then ((validFrom, now env + MaxCacheAssertionValidity env, True),
            emit (Log LvlWarn ''Reduced the validity of the assertion in the cache. Validity exceeded upper bound'') st)
      else ((validFrom, validUntil, True), st))"

definition getShardValidity ::
  "('ac, 'nc, 'ps) environment \<Rightarrow> ShardSection \<Rightarrow> ('ac, 'nc, 'ps) engine \<Rightarrow>
   (int \<times> int \<times> bool) \<times> ('ac, 'nc, 'ps) engine" where
  "getShardValidity env s st =
     (let validFrom = ss_ValidFrom s; validUntil = ss_ValidUntil s in
      if validFrom > now env + MaxCacheShardValidity env
      then ((0, 0, False),
            emit (Log LvlWarn ''Shard validity starts too much in the future. Drop Shard.'') st)
      else if validUntil > now env + MaxCacheShardValidity env
      then ((validFrom, now env + MaxCacheShardValidity env, True),
            emit (Log LvlWarn ''Reduced the validity of the shard in the cache. Validity exceeded upper bound'') st)
      else ((validFrom, validUntil, True), st))"

definition getZoneValidity ::
  "('ac, 'nc, 'ps) environment \<Rightarrow> ZoneSection \<Rightarrow> ('ac, 'nc, 'ps) engine \<Rightarrow>
   (int \<times> int \<times> bool) \<times> ('ac, 'nc, 'ps) engine" where
  "getZoneValidity env z st =
     (let validFrom = zs_ValidFrom z; validUntil = zs_ValidUntil z in
      if validFrom > now env + MaxCacheZoneValidity env
      then ((0, 0, False),
            emit (Log LvlWarn ''Zone validity starts too much in the future. Drop Zone.'') st)
      else if validUntil > now env + MaxCacheZoneValidity env
      then ((validFrom, now env + MaxCacheZoneValidity env, True),
            emit (Log LvlWarn ''Reduced the validity of the zone in the cache. Validity exceeded upper bound'') st)
      else ((validFrom, validUntil, True), st))"

definition shouldAssertionBeCached ::
  "AssertionSection \<Rightarrow> ('ac, 'nc, 'ps) engine \<Rightarrow> bool \<times> ('ac, 'nc, 'ps) engine" where
  "shouldAssertionBeCached assertion st = (True, emit (Log LvlInfo ''Assertion will be cached'') st)"

definition shouldShardBeCached ::
  "ShardSection \<Rightarrow> ('ac, 'nc, 'ps) engine \<Rightarrow> bool \<times> ('ac, 'nc, 'ps) engine" where
  "shouldShardBeCached shard st = (True, emit (Log LvlInfo ''Shard will be cached'') st)"

definition shouldZoneBeCached ::
  "ZoneSection \<Rightarrow> ('ac, 'nc, 'ps) engine \<Rightarrow> bool \<times> ('ac, 'nc, 'ps) engine" where
  "shouldZoneBeCached zone st = (True, emit (Log LvlInfo ''Zone will be cached'') st)"

subsection \<open>assert: assertions\<close>

text \<open>
  A function that can panic returns \<open>Inl\<close> with the panic and the state reached when
  it happened, or \<open>Inr\<close> with its result and the new state. In assertAssertion the
  arguments of \<open>assertionsCache.Add\<close> are evaluated before the call, so an empty
  \<open>Content\<close> panics on \<open>a.Content[0]\<close> with nothing added.
\<close>

definition assertAssertion ::
  "('ac, 'nc, 'ps) environment \<Rightarrow> AssertionSection \<Rightarrow> bool \<Rightarrow> Token \<Rightarrow>
   ('ac, 'nc, 'ps) engine \<Rightarrow>
   (panic \<times> ('ac, 'nc, 'ps) engine) + (bool \<times> ('ac, 'nc, 'ps) engine)" where
  "assertAssertion env a isAuthoritative token st =
     (case getAssertionValidity env a st of
        ((validFrom, validUntil, ok), st1) \<Rightarrow>
          if ok then
            (case shouldAssertionBeCached a st1 of
               (cache, st2) \<Rightarrow>
                 if cache then
                   (case as_Content a of
                      [] \<Rightarrow> Inl (IndexOutOfRange, st2)
                    | c # cs \<Rightarrow>
                        Inr (True, st2\<lparr>assertionsCache :=
                          assertionsCache_Add env (as_Context a) (as_SubjectZone a)
                            (as_SubjectName a) (obj_Type c) isAuthoritative
                            \<lparr>acv_section = a, acv_validFrom = validFrom,
                             acv_validUntil = validUntil\<rparr>
                            (assertionsCache st2)\<rparr>))
                 else Inr (True, st2))
          else if validFrom < now env then
            Inr (False, st1\<lparr>pendingQueries :=
                   snd (pendingQueries_GetAllAndDelete token (pendingQueries st1))\<rparr>)
          else Inr (True, st1))"

text \<open>The loop that puts the woken sections on the normal channel.\<close>

fun wakeSections ::
  "msgSectionSender list \<Rightarrow> ('ac, 'nc, 'ps) engine \<Rightarrow> ('ac, 'nc, 'ps) engine" where
  "wakeSections [] st = st"
| "wakeSections (sectionSender # rest) st =
     wakeSections rest
       (emit (NormalChannel \<lparr>mss_Section = mss_Section sectionSender,
                             mss_Sender = mss_Sender sectionSender,
                             mss_Token = mss_Token sectionSender\<rparr>) st)"

definition handleAssertion ::
  "('ac, 'nc, 'ps) environment \<Rightarrow> AssertionSection \<Rightarrow> Token \<Rightarrow> ('ac, 'nc, 'ps) engine \<Rightarrow>
   (panic \<times> ('ac, 'nc, 'ps) engine) + ('ac, 'nc, 'ps) engine" where
  "handleAssertion env a token st =
     (case as_Content a of
        [] \<Rightarrow> Inl (IndexOutOfRange, st)
      | c # cs \<Rightarrow>
          (let st1 =
             (if obj_Type c = OTDelegation then
                (case pendingSignatures_GetAllAndDelete env (as_Context a) (as_SubjectZone a)
                        (pendingSignatures st) of
                   ((sections, ok), ps') \<Rightarrow>
                     (let st' = st\<lparr>pendingSignatures := ps'\<rparr> in
                      if ok then wakeSections sections st' else st'))
              else st)
           in Inr (handlePendingQueries env (Assertion a) token st1)))"

subsection \<open>assert: shards and zones\<close>

text \<open>The loop of assertShard over the contained assertions; the results are dropped.\<close>

fun assertAssertions ::
  "('ac, 'nc, 'ps) environment \<Rightarrow> AssertionSection list \<Rightarrow> bool \<Rightarrow> ('ac, 'nc, 'ps) engine \<Rightarrow>
   (panic \<times> ('ac, 'nc, 'ps) engine) + ('ac, 'nc, 'ps) engine" where
  "assertAssertions env [] isAuthoritative st = Inr st"
| "assertAssertions env (a # rest) isAuthoritative st =
     (case assertAssertion env a isAuthoritative emptyToken st of
        Inl p \<Rightarrow> Inl p
      | Inr (ok, st1) \<Rightarrow> assertAssertions env rest isAuthoritative st1)"

definition assertShard ::
  "('ac, 'nc, 'ps) environment \<Rightarrow> ShardSection \<Rightarrow> bool \<Rightarrow> Token \<Rightarrow>
   ('ac, 'nc, 'ps) engine \<Rightarrow>
   (panic \<times> ('ac, 'nc, 'ps) engine) + (bool \<times> ('ac, 'nc, 'ps) engine)" where
  "assertShard env shard isAuthoritative token st =
     (case getShardValidity env shard st of
        ((validFrom, validUntil, ok), st1) \<Rightarrow>
          if ok then
            (case shouldShardBeCached shard st1 of
               (cache, st2) \<Rightarrow>
                 (let st3 =
                    (if cache then
                       st2\<lparr>negAssertionCache :=
                         negAssertionCache_Add env (ss_Context shard) (ss_SubjectZone shard)
                           isAuthoritative
                           \<lparr>ncv_section = Shard shard, ncv_validFrom = validFrom,
                            ncv_validUntil = validUntil\<rparr>
                           (negAssertionCache st2)\<rparr>
                     else st2)
                  in case assertAssertions env (ss_Content shard) isAuthoritative st3 of
                       Inl p \<Rightarrow> Inl p
                     | Inr st4 \<Rightarrow> Inr (True, st4)))
          else if validFrom < now env then
            Inr (False, st1\<lparr>pendingQueries :=
                   snd (pendingQueries_GetAllAndDelete token (pendingQueries st1))\<rparr>)
          else Inr (True, st1))"

text \<open>
  The loop of assertZone over the content: assertions and shards are asserted with the
  empty token, anything else is logged.
\<close>

fun assertZoneContent ::
  "('ac, 'nc, 'ps) environment \<Rightarrow> MessageSection list \<Rightarrow> bool \<Rightarrow> ('ac, 'nc, 'ps) engine \<Rightarrow>
   (panic \<times> ('ac, 'nc, 'ps) engine) + ('ac, 'nc, 'ps) engine" where
  "assertZoneContent env [] isAuthoritative st = Inr st"
| "assertZoneContent env (Assertion v # rest) isAuthoritative st =
     (case assertAssertion env v isAuthoritative emptyToken st of
        Inl p \<Rightarrow> Inl p
      | Inr (ok, st1) \<Rightarrow> assertZoneContent env rest isAuthoritative st1)"
| "assertZoneContent env (Shard v # rest) isAuthoritative st =
     (case assertShard env v isAuthoritative emptyToken st of
        Inl p \<Rightarrow> Inl p
      | Inr (ok, st1) \<Rightarrow> assertZoneContent env rest isAuthoritative st1)"
| "assertZoneContent env (v # rest) isAuthoritative st =
     assertZoneContent env rest isAuthoritative
       (emit (Log LvlWarn ''Not supported type. Expected *ShardSection or *AssertionSection.'') st)"

definition assertZone ::
  "('ac, 'nc, 'ps) environment \<Rightarrow> ZoneSection \<Rightarrow> bool \<Rightarrow> Token \<Rightarrow>
   ('ac, 'nc, 'ps) engine \<Rightarrow>
   (panic \<times> ('ac, 'nc, 'ps) engine) + (bool \<times> ('ac, 'nc, 'ps) engine)" where
  "assertZone env zone isAuthoritative token st =
     (case getZoneValidity env zone st of
        ((validFrom, validUntil, ok), st1) \<Rightarrow>
          if ok then
            (case shouldZoneBeCached zone st1 of
               (cache, st2) \<Rightarrow>
                 (let st3 =
                    (if cache then
                       st2\<lparr>negAssertionCache :=
                         negAssertionCache_Add env (zs_Context zone) (zs_SubjectZone zone)
                           isAuthoritative
                           \<lparr>ncv_section = Zone zone, ncv_validFrom = validFrom,
                            ncv_validUntil = validUntil\<rparr>
                           (negAssertionCache st2)\<rparr>
                     else st2)
                  in case assertZoneContent env (zs_Content zone) isAuthoritative st3 of
                       Inl p \<Rightarrow> Inl p
                     | Inr st4 \<Rightarrow> Inr (True, st4)))
          else if validFrom < now env then
            Inr (False, st1\<lparr>pendingQueries :=
                   snd (pendingQueries_GetAllAndDelete token (pendingQueries st1))\<rparr>)
          else Inr (True, st1))"

subsection \<open>assert\<close>

text \<open>
  The Go function is called \<open>assert\<close>; the name is kept with a suffix. The last log
  call of the function runs on every path that does not panic.
\<close>

definition assert_section ::
  "('ac, 'nc, 'ps) environment \<Rightarrow> sectionWithSigSender \<Rightarrow> bool \<Rightarrow> ('ac, 'nc, 'ps) engine \<Rightarrow>
   (panic \<times> ('ac, 'nc, 'ps) engine) + ('ac, 'nc, 'ps) engine" where
  "assert_section env sectionWSSender isAuthoritative st =
     (case
        (case sws_Section sectionWSSender of
           Assertion section \<Rightarrow>
             (let st1 = emit (Log LvlInfo ''Start processing Assertion'') st in
              if isAssertionConsistent env (assertionsCache st1) (negAssertionCache st1) section
              then
                (case assertAssertion env section isAuthoritative (sws_Token sectionWSSender)
                        (emit (Log LvlDebug ''Assertion is consistent with cached elements.'') st1) of
                   Inl p \<Rightarrow> Inl p
                 | Inr (ok, st2) \<Rightarrow>
                     if ok then handleAssertion env section (sws_Token sectionWSSender) st2
                     else Inr st2)
              else Inr (emit (Log LvlDebug ''Assertion is inconsistent with cached elements.'') st1))
         | Shard section \<Rightarrow>
             (let st1 = emit (Log LvlInfo ''Start processing Shard'') st in
              if isShardConsistent env (assertionsCache st1) (negAssertionCache st1) section
              then
                (case assertShard env section isAuthoritative (sws_Token sectionWSSender)
                        (emit (Log LvlDebug ''Shard is consistent with cached elements.'') st1) of
                   Inl p \<Rightarrow> Inl p
                 | Inr (ok, st2) \<Rightarrow>
                     if ok
                     then Inr (handlePendingQueries env (Shard section)
                                 (sws_Token sectionWSSender) st2)
                     else Inr st2)
              else Inr (emit (Log LvlDebug ''Shard is inconsistent with cached elements.'') st1))
         | Zone section \<Rightarrow>
             (let st1 = emit (Log LvlInfo ''Start processing zone'') st in
              if isZoneConsistent env (assertionsCache st1) (negAssertionCache st1) section
              then
                (case assertZone env section isAuthoritative (sws_Token sectionWSSender)
                        (emit (Log LvlDebug ''Zone is consistent with cached elements.'') st1) of
                   Inl p \<Rightarrow> Inl p
                 | Inr (ok, st2) \<Rightarrow>
                     if ok
                     then Inr (handlePendingQueries env (Zone section)
                                 (sws_Token sectionWSSender) st2)
                     else Inr st2)
              else Inr (emit (Log LvlDebug ''Zone is inconsistent with cached elements.'') st1))
         | OtherSection \<Rightarrow> Inr (emit (Log LvlWarn ''Unknown message section'') st))
      of
        Inl p \<Rightarrow> Inl p
      | Inr st' \<Rightarrow> Inr (emit (Log LvlDebug ''Finished handling section'') st'))"

subsection \<open>query\<close>

text \<open>
  The three loops of query over the candidate (zone, name) pairs. The first two return
  \<open>True\<close> when they answered the query, which ends query. \<open>assertions[0]\<close> panics
  if the cache reports a hit with an empty slice.
\<close>

fun query_assertionsLoop ::
  "('ac, 'nc, 'ps) environment \<Rightarrow> QuerySection \<Rightarrow> ConnInfo \<Rightarrow> zoneAndName list \<Rightarrow>
   ('ac, 'nc, 'ps) engine \<Rightarrow>
   (panic \<times> ('ac, 'nc, 'ps) engine) + (bool \<times> ('ac, 'nc, 'ps) engine)" where
  "query_assertionsLoop env q sender [] st = Inr (False, st)"
| "query_assertionsLoop env q sender (zAn # rest) st =
     (case assertionsCache_Get env (qs_Context q) (zan_zone zAn) (zan_name zAn) (qs_Type q)
             (ContainsOption q ExpiredAssertionsOk) (assertionsCache st) of
        ((assertions, ok), ac') \<Rightarrow>
          (let st1 = st\<lparr>assertionsCache := ac'\<rparr> in
           if ok then
             (case assertions of
                [] \<Rightarrow> Inl (IndexOutOfRange, st1)
              | a # as \<Rightarrow>
                  Inr (True,
                    emit (Log LvlDebug ''Finished handling query by sending assertion from cache'')
                      (sendQueryAnswer env (Assertion a) sender (qs_Token q) st1)))
           else query_assertionsLoop env q sender rest st1))"

fun query_negAssertionLoop ::
  "('ac, 'nc, 'ps) environment \<Rightarrow> QuerySection \<Rightarrow> ConnInfo \<Rightarrow> zoneAndName list \<Rightarrow>
   ('ac, 'nc, 'ps) engine \<Rightarrow> bool \<times> ('ac, 'nc, 'ps) engine" where
  "query_negAssertionLoop env q sender [] st = (False, st)"
| "query_negAssertionLoop env q sender (zAn # rest) st =
     (case negAssertionCache_Get env (qs_Context q) (zan_zone zAn) (zan_name zAn)
             (negAssertionCache st) of
        ((negAssertion, ok), nc') \<Rightarrow>
          (let st1 = st\<lparr>negAssertionCache := nc'\<rparr> in
           if ok then
             (True,
              emit (Log LvlDebug ''Finished handling query by sending shard or zone from cache'')
                (sendQueryAnswer env negAssertion sender (qs_Token q) st1))
           else query_negAssertionLoop env q sender rest st1))"

fun query_delegationLoop ::
  "('ac, 'nc, 'ps) environment \<Rightarrow> QuerySection \<Rightarrow> ConnInfo \<Rightarrow> zoneAndName list \<Rightarrow>
   ('ac, 'nc, 'ps) engine \<Rightarrow> ('ac, 'nc, 'ps) engine" where
  "query_delegationLoop env q sender [] st = st"
| "query_delegationLoop env q sender (zAn # rest) st =
     (let delegate = getDelegationAddress env (qs_Context q) (zan_zone zAn) (assertionsCache st) in
      if ConnInfo_Equal delegate (serverConnInfo env) then
        emit (Log LvlError ''Stop processing query. I am authoritative and have no answer in cache'')
          (emit (SendNotificationMsg (qs_Token q) sender NoAssertionAvail) st)
      else
        (let token =
               (if \<not> ContainsOption q TokenTracing
                then GenerateToken env (tokensGenerated st) else qs_Token q);
             st1 =
               (if \<not> ContainsOption q TokenTracing
                then st\<lparr>tokensGenerated := Suc (tokensGenerated st)\<rparr> else st);
             validUntil =
               (if qs_Expires q < now env + AssertionQueryValidity env
                then qs_Expires q else now env + AssertionQueryValidity env);
             st2 = st1\<lparr>pendingQueries :=
                     pendingQueries_Add (qs_Context q) (zan_zone zAn) (zan_name zAn) (qs_Type q)
                       \<lparr>pq_connInfo = sender, pq_token = token, pq_validUntil = validUntil\<rparr>
                       (pendingQueries st1)\<rparr>;
             st3 = emit (Log LvlDebug ''Added query into to pending query cache'') st2;
             st4 = emit (SendQuery (qs_Context q) (zan_zone zAn) validUntil (qs_Type q) token
                           delegate) st3
         in query_delegationLoop env q sender rest st4))"

definition query ::
  "('ac, 'nc, 'ps) environment \<Rightarrow> QuerySection \<Rightarrow> ConnInfo \<Rightarrow> ('ac, 'nc, 'ps) engine \<Rightarrow>
   (panic \<times> ('ac, 'nc, 'ps) engine) + ('ac, 'nc, 'ps) engine" where
  "query env q sender st =
     (let st0 = emit (Log LvlInfo ''Start processing query'') st in
      case getZoneAndName (qs_Name q) of
        Inl p \<Rightarrow> Inl (p, st0)
      | Inr zoneAndNames \<Rightarrow>
          (case query_assertionsLoop env q sender zoneAndNames st0 of
             Inl p \<Rightarrow> Inl p
           | Inr (answered, st1) \<Rightarrow>
               if answered then Inr st1
               else
                 (case query_negAssertionLoop env q sender zoneAndNames st1 of
                    (answered', st2) \<Rightarrow>
                      if answered' then Inr st2
                      else if ContainsOption q CachedAnswersOnly then
                        Inr (emit (Log LvlDebug ''Finished handling query (unsuccessful) due to Cached Answers only query option'')
                               (emit (SendNotificationMsg (qs_Token q) sender NoAssertionAvail) st2))
                      else Inr (query_delegationLoop env q sender zoneAndNames st2))))"

subsection \<open>An instance of the parameters\<close>

text \<open>
  For the examples: caches that record, in order, every value added and never return a
  hit; a pending-signature cache that holds nothing; every section is consistent; every
  zone is delegated to one upstream server; the encoder returns the token of the message
  followed by the number of its sections, so that the token of an answer shows in what
  is sent.
\<close>

definition recordAssertion ::
  "string \<Rightarrow> string \<Rightarrow> string \<Rightarrow> ObjectType \<Rightarrow> bool \<Rightarrow> assertionCacheValue \<Rightarrow>
   (ObjectType \<times> assertionCacheValue) list \<Rightarrow> (ObjectType \<times> assertionCacheValue) list" where
  "recordAssertion context zone name objType isAuthoritative v ac = ac @ [(objType, v)]"

definition recordNegAssertion ::
  "string \<Rightarrow> string \<Rightarrow> bool \<Rightarrow> negativeAssertionCacheValue \<Rightarrow>
   negativeAssertionCacheValue list \<Rightarrow> negativeAssertionCacheValue list" where
  "recordNegAssertion context zone isAuthoritative v nc = nc @ [v]"

definition exampleServer :: ConnInfo where
  "exampleServer = \<lparr>ci_Type = 1, ci_IPAddr = ''127.0.0.1'', ci_Port = 5022\<rparr>"

definition exampleUpstream :: ConnInfo where
  "exampleUpstream = \<lparr>ci_Type = 1, ci_IPAddr = ''192.0.2.1'', ci_Port = 5022\<rparr>"

definition exampleClient :: ConnInfo where
  "exampleClient = \<lparr>ci_Type = 1, ci_IPAddr = ''192.0.2.7'', ci_Port = 40000\<rparr>"

definition exampleEnv ::
  "((ObjectType \<times> assertionCacheValue) list, negativeAssertionCacheValue list, unit) environment" where
  "exampleEnv =
     \<lparr>now = 1000,
      MaxCacheAssertionValidity = 100,
      MaxCacheShardValidity = 200,
      MaxCacheZoneValidity = 300,
      AssertionQueryValidity = 10,
      serverConnInfo = exampleServer,
      GenerateToken = (\<lambda>i. replicate 16 (Suc i)),
      ParseRainsMsg = (\<lambda>m. Some (rm_Token m @ [length (rm_Content m)])),
      assertionsCache_Add = recordAssertion,
      assertionsCache_Get = (\<lambda>context zone name objType expiredOk ac. (([], False), ac)),
      negAssertionCache_Add = recordNegAssertion,
      negAssertionCache_Get = (\<lambda>context zone name nc. ((OtherSection, False), nc)),
      pendingSignatures_GetAllAndDelete = (\<lambda>context zone ps. (([], False), ps)),
      getDelegationAddress = (\<lambda>context zone ac. exampleUpstream),
      isAssertionConsistent = (\<lambda>ac nc a. True),
      isShardConsistent = (\<lambda>ac nc s. True),
      isZoneConsistent = (\<lambda>ac nc z. True)\<rparr>"

definition exampleEngine ::
  "((ObjectType \<times> assertionCacheValue) list, negativeAssertionCacheValue list, unit) engine" where
  "exampleEngine =
     \<lparr>assertionsCache = [],
      negAssertionCache = [],
      pendingQueries = \<lparr>pqc_capacity = 10, pqc_entries = []\<rparr>,
      pendingSignatures = (),
      tokensGenerated = 0,
      out = []\<rparr>"

definition exampleToken :: Token where
  "exampleToken = replicate 16 7"

definition exampleAssertion :: AssertionSection where
  "exampleAssertion =
     \<lparr>as_SubjectName = ''ethz'', as_SubjectZone = ''ch'', as_Context = ''.'',
      as_Content = [\<lparr>obj_Type = OTIP4Addr, obj_Value = VString ''127.0.0.1''\<rparr>],
      as_ValidFrom = 990, as_ValidUntil = 1060\<rparr>"

definition exampleQuery :: QuerySection where
  "exampleQuery =
     \<lparr>qs_Token = exampleToken, qs_Name = ''ethz.ch'', qs_Context = ''.'',
      qs_Type = OTIP4Addr, qs_Expires = 1005, qs_Options = []\<rparr>"

text \<open>The example engine with one client waiting for the answer to the example token.\<close>

definition waitingEngine ::
  "((ObjectType \<times> assertionCacheValue) list, negativeAssertionCacheValue list, unit) engine" where
  "waitingEngine =
     exampleEngine\<lparr>pendingQueries := \<lparr>pqc_capacity = 10, pqc_entries =
       [(exampleToken,
         \<lparr>pq_connInfo = exampleClient, pq_token = [9], pq_validUntil = 1005\<rparr>)]\<rparr>\<rparr>"

text \<open>A shard and a zone whose validUntil lies beyond every cap.\<close>

definition exampleShard :: ShardSection where
  "exampleShard =
     \<lparr>ss_Content = [exampleAssertion\<lparr>as_ValidUntil := 5000\<rparr>],
      ss_Context = ''.'', ss_SubjectZone = ''ch'', ss_RangeFrom = ''aaa'', ss_RangeTo = ''zzz'',
      ss_ValidFrom = 990, ss_ValidUntil = 5000\<rparr>"

definition exampleZone :: ZoneSection where
  "exampleZone = ZoneSection [Assertion exampleAssertion, Shard exampleShard] ''.'' ''ch'' 990 5000"

text \<open>
  A delegation assertion with a second object, and an environment whose pending-signature
  cache holds one shard that waits for the delegation.
\<close>

definition exampleDelegation :: AssertionSection where
  "exampleDelegation =
     exampleAssertion\<lparr>as_Content :=
       [\<lparr>obj_Type = OTDelegation,
         obj_Value = VPublicKey \<lparr>pk_Type = 1, pk_KeySpace = 0, pk_Key = Ed25519Key [1, 2, 3],
                                 pk_ValidSince = 10000, pk_ValidUntil = 50000\<rparr>\<rparr>,
        \<lparr>obj_Type = OTIP4Addr, obj_Value = VString ''127.0.0.1''\<rparr>]\<rparr>"

definition exampleWakeEnv ::
  "((ObjectType \<times> assertionCacheValue) list, negativeAssertionCacheValue list, unit) environment" where
  "exampleWakeEnv =
     exampleEnv\<lparr>pendingSignatures_GetAllAndDelete :=
       (\<lambda>context zone ps.
          (([\<lparr>mss_Section = Shard exampleShard, mss_Sender = exampleUpstream,
              mss_Token = emptyToken\<rparr>], True), ps))\<rparr>"

subsection \<open>Observing the caches\<close>

text \<open>The state a panic or a normal return leaves behind.\<close>

definition finalState ::
  "(panic \<times> ('ac, 'nc, 'ps) engine) + ('ac, 'nc, 'ps) engine \<Rightarrow> ('ac, 'nc, 'ps) engine" where
  "finalState r = (case r of Inl (p, st) \<Rightarrow> st | Inr st \<Rightarrow> st)"

text \<open>
  The per-kind cap and the validUntil of a section, for stating the bound on what is
  cached; and the state that a function returning a flag leaves behind, whether it
  panicked or returned.
\<close>

definition maxCacheValidity :: "('ac, 'nc, 'ps) environment \<Rightarrow> MessageSection \<Rightarrow> int" where
  "maxCacheValidity env section =
     (case section of
        Assertion a \<Rightarrow> MaxCacheAssertionValidity env
      | Shard s \<Rightarrow> MaxCacheShardValidity env
      | Zone z \<Rightarrow> MaxCacheZoneValidity env
      | OtherSection \<Rightarrow> 0)"

definition sectionValidUntil :: "MessageSection \<Rightarrow> int" where
  "sectionValidUntil section =
     (case section of
        Assertion a \<Rightarrow> as_ValidUntil a
      | Shard s \<Rightarrow> ss_ValidUntil s
      | Zone z \<Rightarrow> zs_ValidUntil z
      | OtherSection \<Rightarrow> 0)"

definition stateAfter ::
  "(panic \<times> ('ac, 'nc, 'ps) engine) + (bool \<times> ('ac, 'nc, 'ps) engine) \<Rightarrow> ('ac, 'nc, 'ps) engine" where
  "stateAfter r = (case r of Inl (p, st) \<Rightarrow> st | Inr (ok, st) \<Rightarrow> st)"

text \<open>
  What assert adds to the two recording caches between two states: the new values, each
  with a validUntil that is the section's own, cut down to now plus the cap of its kind.
\<close>

definition cachesGrow ::
  "((ObjectType \<times> assertionCacheValue) list, negativeAssertionCacheValue list, 'ps) environment \<Rightarrow>
   ((ObjectType \<times> assertionCacheValue) list, negativeAssertionCacheValue list, 'ps) engine \<Rightarrow>
   ((ObjectType \<times> assertionCacheValue) list, negativeAssertionCacheValue list, 'ps) engine \<Rightarrow> bool" where
  "cachesGrow env st st' =
     (\<exists>newA newN.
        assertionsCache st' = assertionsCache st @ newA
      \<and> negAssertionCache st' = negAssertionCache st @ newN
      \<and> list_all (\<lambda>e. acv_validUntil (snd e) \<le> now env + MaxCacheAssertionValidity env
                     \<and> acv_validUntil (snd e) =
                         min (as_ValidUntil (acv_section (snd e)))
                             (now env + MaxCacheAssertionValidity env)) newA
      \<and> list_all (\<lambda>v. ncv_validUntil v \<le> now env + maxCacheValidity env (ncv_section v)
                     \<and> ncv_validUntil v =
                         min (sectionValidUntil (ncv_section v))
                             (now env + maxCacheValidity env (ncv_section v))) newN)"

subsection \<open>UpdateSectionValidity and its test\<close>














section \<open>Splitting a query name\<close>

lemma Split_not_Nil: "Split s sep \<noteq> []"
  by (induction s) (auto split: list.splits)

lemma hd_Split: "hd (Split s sep) = takeWhile (\<lambda>c. c \<noteq> sep) s"
proof (induction s)
  case Nil
  show ?case by simp
next
  case (Cons c cs)
  show ?case
  proof (cases "c = sep")
    case True
    then show ?thesis by simp
  next
    case False
    obtain w ws where ws: "Split cs sep = w # ws"
      using Split_not_Nil [of cs sep] by (cases "Split cs sep") auto
    with Cons False show ?thesis by simp
  qed
qed

lemma Join_tl_Split: "Join (tl (Split s sep)) [sep] = drop 1 (dropWhile (\<lambda>c. c \<noteq> sep) s)"
proof (induction s)
  case Nil
  show ?case by simp
next
  case (Cons c cs)
  show ?case
  proof (cases "c = sep")
    case True
    have "Join (Split cs sep) [sep] = cs"
    proof (induction cs)
      case Nil
      show ?case by simp
    next
      case (Cons d ds)
      obtain w ws where ws: "Split ds sep = w # ws"
        using Split_not_Nil [of ds sep] by (cases "Split ds sep") auto
      with Cons show ?case by (cases ws) auto
    qed
    with True show ?thesis by simp
  next
    case False
    obtain w ws where ws: "Split cs sep = w # ws"
      using Split_not_Nil [of cs sep] by (cases "Split cs sep") auto
    with Cons False show ?thesis by simp
  qed
qed

text \<open>
  C10. getZoneAndName never fails and returns exactly one pair: the name is the part of
  the input before the first dot, the zone is what follows that dot; an input without a
  dot (the empty string too) gives the whole input as name and the empty zone.
\<close>

theorem getZoneAndName_splits_at_first_dot:
  "getZoneAndName s =
     Inr [\<lparr>zan_zone = drop 1 (dropWhile (\<lambda>c. c \<noteq> CHR ''.'') s),
           zan_name = takeWhile (\<lambda>c. c \<noteq> CHR ''.'') s\<rparr>]
   \<and> (CHR ''.'' \<notin> set s \<longrightarrow> getZoneAndName s = Inr [\<lparr>zan_zone = [], zan_name = s\<rparr>])"
proof -
  obtain n rest where nr: "Split s (CHR ''.'') = n # rest"
    using Split_not_Nil [of s "CHR ''.''"] by (cases "Split s (CHR ''.'')") auto
  have n: "n = takeWhile (\<lambda>c. c \<noteq> CHR ''.'') s"
    using hd_Split [of s "CHR ''.''"] nr by simp
  have r: "Join rest ''.'' = drop 1 (dropWhile (\<lambda>c. c \<noteq> CHR ''.'') s)"
    using Join_tl_Split [of s "CHR ''.''"] nr by simp
  have first: "getZoneAndName s =
     Inr [\<lparr>zan_zone = drop 1 (dropWhile (\<lambda>c. c \<noteq> CHR ''.'') s),
           zan_name = takeWhile (\<lambda>c. c \<noteq> CHR ''.'') s\<rparr>]"
    by (simp add: getZoneAndName_def nr n r)
  have second: "getZoneAndName s = Inr [\<lparr>zan_zone = [], zan_name = s\<rparr>]"
    if nodot: "CHR ''.'' \<notin> set s"
  proof -
    have tw: "takeWhile (\<lambda>c. c \<noteq> CHR ''.'') s = s"
      using nodot by (induction s) auto
    have dw: "dropWhile (\<lambda>c. c \<noteq> CHR ''.'') s = []"
      using nodot by (induction s) auto
    show ?thesis by (simp add: first tw dw)
  qed
  from first second show ?thesis by blast
qed

theorem getZoneAndName_splits_at_first_dot_witness:
  "getZoneAndName ''www.ethz.ch'' = Inr [\<lparr>zan_zone = ''ethz.ch'', zan_name = ''www''\<rparr>]
   \<and> CHR ''.'' \<notin> set ''ethz''
   \<and> getZoneAndName ''ethz'' = Inr [\<lparr>zan_zone = [], zan_name = ''ethz''\<rparr>]
   \<and> getZoneAndName [] = Inr [\<lparr>zan_zone = [], zan_name = []\<rparr>]"
  using getZoneAndName_splits_at_first_dot [of "''www.ethz.ch''"]
        getZoneAndName_splits_at_first_dot [of "''ethz''"]
        getZoneAndName_splits_at_first_dot [of "[]"]
  by simp

section \<open>Comparing objects\<close>

text \<open>
  C7. Object.CompareTo should be a total order that returns 0 only on equal objects.
  On two name objects with the same name, one with the types [3] and one with the
  types [3, 2], the comparison of the shorter with the longer returns 0 although the
  objects differ, and the comparison of the longer with the shorter panics on
  \<open>nameObj.Types[1]\<close>: the loop never compares the lengths.
\<close>

theorem Object_CompareTo_name_types_prefix:
  "Object_CompareTo
     \<lparr>obj_Type = OTName, obj_Value = VName \<lparr>no_Name = ''a'', no_Types = [OTIP4Addr]\<rparr>\<rparr>
     \<lparr>obj_Type = OTName, obj_Value = VName \<lparr>no_Name = ''a'', no_Types = [OTIP4Addr, OTIP6Addr]\<rparr>\<rparr>
     = Inr 0
   \<and> \<lparr>obj_Type = OTName, obj_Value = VName \<lparr>no_Name = ''a'', no_Types = [OTIP4Addr]\<rparr>\<rparr>
     \<noteq> \<lparr>obj_Type = OTName, obj_Value = VName \<lparr>no_Name = ''a'', no_Types = [OTIP4Addr, OTIP6Addr]\<rparr>\<rparr>
   \<and> Object_CompareTo
     \<lparr>obj_Type = OTName, obj_Value = VName \<lparr>no_Name = ''a'', no_Types = [OTIP4Addr, OTIP6Addr]\<rparr>\<rparr>
     \<lparr>obj_Type = OTName, obj_Value = VName \<lparr>no_Name = ''a'', no_Types = [OTIP4Addr]\<rparr>\<rparr>
     = Inl IndexOutOfRange"
  by (simp add: Object_CompareTo_def NameObject_CompareTo_def string_less_def
        OTName_def OTIP4Addr_def OTIP6Addr_def)

section \<open>The state after the basic steps\<close>

lemma emit_fields [simp]:
  "out (emit e st) = out st @ [e]"
  "assertionsCache (emit e st) = assertionsCache st"
  "negAssertionCache (emit e st) = negAssertionCache st"
  "pendingQueries (emit e st) = pendingQueries st"
  "pendingSignatures (emit e st) = pendingSignatures st"
  "tokensGenerated (emit e st) = tokensGenerated st"
  by (simp_all add: emit_def)

lemma sendQueryAnswer_fields [simp]:
  "assertionsCache (sendQueryAnswer env S c t st) = assertionsCache st"
  "negAssertionCache (sendQueryAnswer env S c t st) = negAssertionCache st"
  "pendingQueries (sendQueryAnswer env S c t st) = pendingQueries st"
  "pendingSignatures (sendQueryAnswer env S c t st) = pendingSignatures st"
  "tokensGenerated (sendQueryAnswer env S c t st) = tokensGenerated st"
  by (simp_all add: sendQueryAnswer_def split: option.splits)

lemma sendQueryAnswer_out:
  "out (sendQueryAnswer env S c t st) =
     out st @ (case ParseRainsMsg env \<lparr>rm_Content = [S], rm_Token = t\<rparr> of
                 None \<Rightarrow> [Log LvlError ''Was not able to parse message'']
               | Some byteMsg \<Rightarrow> [SendTo byteMsg c])"
  by (simp add: sendQueryAnswer_def split: option.splits)

lemma answerWaiters_fields [simp]:
  "assertionsCache (answerWaiters env S vs st) = assertionsCache st"
  "negAssertionCache (answerWaiters env S vs st) = negAssertionCache st"
  "pendingQueries (answerWaiters env S vs st) = pendingQueries st"
  "pendingSignatures (answerWaiters env S vs st) = pendingSignatures st"
  "tokensGenerated (answerWaiters env S vs st) = tokensGenerated st"
  by (induction vs arbitrary: st; simp)+

lemma answerWaiters_out:
  "out (answerWaiters env S vs st) =
     out st @ concat (map (\<lambda>v.
       if pq_validUntil v > now env
       then (case ParseRainsMsg env \<lparr>rm_Content = [S], rm_Token = pq_token v\<rparr> of
               None \<Rightarrow> [Log LvlError ''Was not able to parse message'']
             | Some byteMsg \<Rightarrow> [SendTo byteMsg (pq_connInfo v)])
       else [Log LvlInfo ''Query expired in pendingQuery queue.'']) vs)"
  by (induction vs arbitrary: st) (simp_all add: sendQueryAnswer_out)

lemma GetAllAndDelete_again:
  "fst (pendingQueries_GetAllAndDelete t (snd (pendingQueries_GetAllAndDelete t c))) = ([], False)"
  by (simp add: pendingQueries_GetAllAndDelete_def Let_def filter_empty_conv)

lemma handlePendingQueries_fields [simp]:
  "assertionsCache (handlePendingQueries env S t st) = assertionsCache st"
  "negAssertionCache (handlePendingQueries env S t st) = negAssertionCache st"
  "pendingSignatures (handlePendingQueries env S t st) = pendingSignatures st"
  "tokensGenerated (handlePendingQueries env S t st) = tokensGenerated st"
  "pendingQueries (handlePendingQueries env S t st) =
     snd (pendingQueries_GetAllAndDelete t (pendingQueries st))"
  by (simp_all add: handlePendingQueries_def Let_def split: prod.splits)

lemma handlePendingQueries_out:
  "out (handlePendingQueries env S t st) =
     out st @ concat (map (\<lambda>v.
       if pq_validUntil v > now env
       then (case ParseRainsMsg env \<lparr>rm_Content = [S], rm_Token = pq_token v\<rparr> of
               None \<Rightarrow> [Log LvlError ''Was not able to parse message'']
             | Some byteMsg \<Rightarrow> [SendTo byteMsg (pq_connInfo v)])
       else [Log LvlInfo ''Query expired in pendingQuery queue.''])
       (fst (fst (pendingQueries_GetAllAndDelete t (pendingQueries st)))))"
proof -
  obtain vs ok pq' where g: "pendingQueries_GetAllAndDelete t (pendingQueries st) = ((vs, ok), pq')"
    by (metis prod.exhaust)
  then have ok: "ok = (vs \<noteq> [])"
    by (auto simp: pendingQueries_GetAllAndDelete_def Let_def)
  show ?thesis
    by (simp add: handlePendingQueries_def g ok answerWaiters_out Let_def)
qed

section \<open>Answering the waiters of a token\<close>




section \<open>Queries that may only be answered from the caches\<close>

lemma getZoneAndName_value:
  "getZoneAndName s =
     Inr [\<lparr>zan_zone = drop 1 (dropWhile (\<lambda>c. c \<noteq> CHR ''.'') s),
           zan_name = takeWhile (\<lambda>c. c \<noteq> CHR ''.'') s\<rparr>]"
proof -
  obtain n rest where nr: "Split s (CHR ''.'') = n # rest"
    using Split_not_Nil [of s "CHR ''.''"] by (cases "Split s (CHR ''.'')") auto
  have n: "n = takeWhile (\<lambda>c. c \<noteq> CHR ''.'') s"
    using hd_Split [of s "CHR ''.''"] nr by simp
  have r: "Join rest ''.'' = drop 1 (dropWhile (\<lambda>c. c \<noteq> CHR ''.'') s)"
    using Join_tl_Split [of s "CHR ''.''"] nr by simp
  show ?thesis
    by (simp add: getZoneAndName_def nr n r)
qed

text \<open>
  C5. A query with the CachedAnswersOnly option that misses the assertion cache and the
  negative-assertion cache is answered with a NoAssertionAvail notification to the
  sender, carrying the query's token. Nothing else is sent (no query is forwarded), no
  token is generated and the pending-query cache is left as it was.
\<close>

theorem query_cached_answers_only_miss:
  assumes opt: "ContainsOption q CachedAnswersOnly"
    and miss: "\<not> snd (fst (assertionsCache_Get env (qs_Context q)
                 (drop 1 (dropWhile (\<lambda>c. c \<noteq> CHR ''.'') (qs_Name q)))
                 (takeWhile (\<lambda>c. c \<noteq> CHR ''.'') (qs_Name q))
                 (qs_Type q) (ContainsOption q ExpiredAssertionsOk) (assertionsCache st)))"
    and negMiss: "\<not> snd (fst (negAssertionCache_Get env (qs_Context q)
                 (drop 1 (dropWhile (\<lambda>c. c \<noteq> CHR ''.'') (qs_Name q)))
                 (takeWhile (\<lambda>c. c \<noteq> CHR ''.'') (qs_Name q))
                 (negAssertionCache st)))"
  shows "\<exists>st'. query env q sender st = Inr st'
           \<and> out st' = out st @
                [Log LvlInfo ''Start processing query'',
                 SendNotificationMsg (qs_Token q) sender NoAssertionAvail,
                 Log LvlDebug ''Finished handling query (unsuccessful) due to Cached Answers only query option'']
           \<and> pendingQueries st' = pendingQueries st
           \<and> tokensGenerated st' = tokensGenerated st"
  using opt miss negMiss
  by (auto simp add: query_def getZoneAndName_value Let_def split: prod.splits)

theorem query_cached_answers_only_miss_witness:
  "ContainsOption (exampleQuery\<lparr>qs_Options := [CachedAnswersOnly]\<rparr>) CachedAnswersOnly
   \<and> query exampleEnv (exampleQuery\<lparr>qs_Options := [CachedAnswersOnly]\<rparr>) exampleClient exampleEngine =
       Inr (exampleEngine\<lparr>out :=
                [Log LvlInfo ''Start processing query'',
                 SendNotificationMsg exampleToken exampleClient NoAssertionAvail,
                 Log LvlDebug ''Finished handling query (unsuccessful) due to Cached Answers only query option'']\<rparr>)"
  using query_cached_answers_only_miss [of "exampleQuery\<lparr>qs_Options := [CachedAnswersOnly]\<rparr>"
          exampleEnv exampleEngine exampleClient]
  by (simp add: ContainsOption_def exampleEnv_def exampleQuery_def exampleEngine_def
        query_def getZoneAndName_value emit_def)


section \<open>Forwarding a query\<close>

text \<open>
  C2. A forwarded query should leave a waiter with the sender, the client's own query
  token and validUntil under the outbound token. For the example query (no
  TokenTracing, token 7...7, expiring at 1005) the outbound token is the freshly
  generated 1...1, the query is sent upstream with it and validUntil is
  min(1005, 1000 + 10) = 1005; but the waiter recorded holds the outbound token 1...1,
  not the client's 7...7, so the answer that arrives under 1...1 goes back to the client
  tagged 1...1.
\<close>

theorem query_forward_records_outbound_token:
  "\<not> ContainsOption exampleQuery TokenTracing
   \<and> qs_Token exampleQuery \<noteq> replicate 16 1
   \<and> query exampleEnv exampleQuery exampleClient exampleEngine =
       Inr (exampleEngine
         \<lparr>pendingQueries := \<lparr>pqc_capacity = 10, pqc_entries =
            [(replicate 16 1,
              \<lparr>pq_connInfo = exampleClient, pq_token = replicate 16 1, pq_validUntil = 1005\<rparr>)]\<rparr>,
          tokensGenerated := 1,
          out := [Log LvlInfo ''Start processing query'',
                  Log LvlDebug ''Added query into to pending query cache'',
                  SendQuery ''.'' ''ch'' 1005 OTIP4Addr (replicate 16 1) exampleUpstream]\<rparr>)
   \<and> out (handlePendingQueries exampleEnv (Assertion exampleAssertion) (replicate 16 1)
          (exampleEngine
            \<lparr>pendingQueries := \<lparr>pqc_capacity = 10, pqc_entries =
               [(replicate 16 1,
                 \<lparr>pq_connInfo = exampleClient, pq_token = replicate 16 1, pq_validUntil = 1005\<rparr>)]\<rparr>\<rparr>))
       = [SendTo (replicate 16 1 @ [1]) exampleClient]"
  by (simp add: ContainsOption_def exampleEnv_def exampleQuery_def exampleEngine_def
        exampleToken_def query_def getZoneAndName_value emit_def Let_def
        pendingQueries_Add_def exampleUpstream_def exampleServer_def ConnInfo_Equal_def
        handlePendingQueries_def pendingQueries_GetAllAndDelete_def sendQueryAnswer_def)

section \<open>Assertions without objects\<close>

text \<open>
  C8. An assertion with an empty Content should be rejected without a crash. The
  example assertion with its content removed is consistent and within the validity
  bounds, so assert reaches \<open>a.Content[0]\<close> in assertAssertion and panics there
  with an index out of range; nothing has been added to a cache at that point.
\<close>

theorem assert_empty_content_panics:
  "assert_section exampleEnv
     \<lparr>sws_Section = Assertion (exampleAssertion\<lparr>as_Content := []\<rparr>),
      sws_Sender = exampleUpstream, sws_Token = exampleToken\<rparr> False exampleEngine
   = Inl (IndexOutOfRange,
          exampleEngine\<lparr>out := [Log LvlInfo ''Start processing Assertion'',
                                  Log LvlDebug ''Assertion is consistent with cached elements.'',
                                  Log LvlInfo ''Assertion will be cached'']\<rparr>)"
  by (simp add: assert_section_def assertAssertion_def getAssertionValidity_def
        shouldAssertionBeCached_def exampleEnv_def exampleAssertion_def exampleEngine_def
        emit_def Let_def)


section \<open>Assertions that start too far in the future\<close>

lemma wakeSections_fields [simp]:
  "assertionsCache (wakeSections ss st) = assertionsCache st"
  "negAssertionCache (wakeSections ss st) = negAssertionCache st"
  "pendingQueries (wakeSections ss st) = pendingQueries st"
  "pendingSignatures (wakeSections ss st) = pendingSignatures st"
  "tokensGenerated (wakeSections ss st) = tokensGenerated st"
  by (induction ss arbitrary: st; simp)+

lemma wakeSections_out: "out (wakeSections ss st) = out st @ map NormalChannel ss"
  by (induction ss arbitrary: st) simp_all

lemma assertAssertion_future:
  assumes "as_ValidFrom a > now env + MaxCacheAssertionValidity env" and "0 < now env"
  shows "assertAssertion env a isAuthoritative token st =
           Inr (False,
             st\<lparr>pendingQueries := snd (pendingQueries_GetAllAndDelete token (pendingQueries st)),
                out := out st @ [Log LvlWarn ''Assertion validity starts too much in the future. Drop Assertion.'']\<rparr>)"
  using assms by (simp add: assertAssertion_def getAssertionValidity_def emit_def Let_def)

text \<open>
  C4 (as amended). Let the validFrom of an assertion exceed now +
  MaxCacheAssertionValidity, and let the clock be past the epoch (now > 0: the guard of
  the purge compares the 0 that getAssertionValidity returns with now). Then
  assertAssertion returns false, adds nothing to a cache and removes all pending-query
  entries of the token. If moreover the assertion passed the consistency check, assert
  does the same and only logs: no pending query is answered.
\<close>

theorem assert_future_assertion_rejected:
  assumes future: "as_ValidFrom a > now env + MaxCacheAssertionValidity env"
    and clock: "0 < now env"
  shows "assertAssertion env a isAuthoritative token st =
           Inr (False,
             st\<lparr>pendingQueries := snd (pendingQueries_GetAllAndDelete token (pendingQueries st)),
                out := out st @ [Log LvlWarn ''Assertion validity starts too much in the future. Drop Assertion.'']\<rparr>)
         \<and> pendingQueries_GetAllAndDelete token
             (snd (pendingQueries_GetAllAndDelete token (pendingQueries st))) =
             (([], False), snd (pendingQueries_GetAllAndDelete token (pendingQueries st)))
         \<and> (isAssertionConsistent env (assertionsCache st) (negAssertionCache st) a \<longrightarrow>
             assert_section env
               \<lparr>sws_Section = Assertion a, sws_Sender = sender, sws_Token = token\<rparr>
               isAuthoritative st =
             Inr (st\<lparr>pendingQueries := snd (pendingQueries_GetAllAndDelete token (pendingQueries st)),
                     out := out st @
                       [Log LvlInfo ''Start processing Assertion'',
                        Log LvlDebug ''Assertion is consistent with cached elements.'',
                        Log LvlWarn ''Assertion validity starts too much in the future. Drop Assertion.'',
                        Log LvlDebug ''Finished handling section'']\<rparr>))"
proof (intro conjI impI)
  show "assertAssertion env a isAuthoritative token st =
           Inr (False,
             st\<lparr>pendingQueries := snd (pendingQueries_GetAllAndDelete token (pendingQueries st)),
                out := out st @ [Log LvlWarn ''Assertion validity starts too much in the future. Drop Assertion.'']\<rparr>)"
    using future clock by (rule assertAssertion_future)
next
  show "pendingQueries_GetAllAndDelete token
             (snd (pendingQueries_GetAllAndDelete token (pendingQueries st))) =
             (([], False), snd (pendingQueries_GetAllAndDelete token (pendingQueries st)))"
    by (simp add: pendingQueries_GetAllAndDelete_def Let_def filter_empty_conv)
next
  assume "isAssertionConsistent env (assertionsCache st) (negAssertionCache st) a"
  then show "assert_section env
               \<lparr>sws_Section = Assertion a, sws_Sender = sender, sws_Token = token\<rparr>
               isAuthoritative st =
             Inr (st\<lparr>pendingQueries := snd (pendingQueries_GetAllAndDelete token (pendingQueries st)),
                     out := out st @
                       [Log LvlInfo ''Start processing Assertion'',
                        Log LvlDebug ''Assertion is consistent with cached elements.'',
                        Log LvlWarn ''Assertion validity starts too much in the future. Drop Assertion.'',
                        Log LvlDebug ''Finished handling section'']\<rparr>)"
    using future clock
    by (simp add: assert_section_def assertAssertion_future Let_def)
qed

theorem assert_future_assertion_rejected_witness:
  "as_ValidFrom (exampleAssertion\<lparr>as_ValidFrom := 1200, as_ValidUntil := 1300\<rparr>)
     > now exampleEnv + MaxCacheAssertionValidity exampleEnv
   \<and> 0 < now exampleEnv
   \<and> assert_section exampleEnv
        \<lparr>sws_Section = Assertion (exampleAssertion\<lparr>as_ValidFrom := 1200, as_ValidUntil := 1300\<rparr>),
         sws_Sender = exampleUpstream, sws_Token = exampleToken\<rparr> False waitingEngine =
      Inr (exampleEngine\<lparr>out :=
                       [Log LvlInfo ''Start processing Assertion'',
                        Log LvlDebug ''Assertion is consistent with cached elements.'',
                        Log LvlWarn ''Assertion validity starts too much in the future. Drop Assertion.'',
                        Log LvlDebug ''Finished handling section'']\<rparr>)"
  using assert_future_assertion_rejected
          [of exampleEnv "exampleAssertion\<lparr>as_ValidFrom := 1200, as_ValidUntil := 1300\<rparr>"
              False exampleToken waitingEngine exampleUpstream]
  by (simp add: exampleEnv_def exampleAssertion_def waitingEngine_def exampleEngine_def
        pendingQueries_GetAllAndDelete_def)

text \<open>
  The claim as stated fails in two ways. With the clock at the epoch (now = 0) the guard
  of the purge is false: assertAssertion returns true for an assertion whose validFrom
  200 exceeds 0 + 100, and assert answers the waiter of the token with it. And an
  assertion that starts too far in the future but fails the consistency check is dropped
  before assertAssertion: the waiters of its token stay in the cache.
\<close>

theorem assert_future_assertion_counterexample:
  "assert_section (exampleEnv\<lparr>now := 0\<rparr>)
        \<lparr>sws_Section = Assertion (exampleAssertion\<lparr>as_ValidFrom := 200, as_ValidUntil := 300\<rparr>),
         sws_Sender = exampleUpstream, sws_Token = exampleToken\<rparr> False waitingEngine =
      Inr (exampleEngine\<lparr>out :=
                       [Log LvlInfo ''Start processing Assertion'',
                        Log LvlDebug ''Assertion is consistent with cached elements.'',
                        Log LvlWarn ''Assertion validity starts too much in the future. Drop Assertion.'',
                        SendTo [9, 1] exampleClient,
                        Log LvlDebug ''Finished handling section'']\<rparr>)
   \<and> assert_section (exampleEnv\<lparr>isAssertionConsistent := (\<lambda>ac nc a. False)\<rparr>)
        \<lparr>sws_Section = Assertion (exampleAssertion\<lparr>as_ValidFrom := 1200, as_ValidUntil := 1300\<rparr>),
         sws_Sender = exampleUpstream, sws_Token = exampleToken\<rparr> False waitingEngine =
      Inr (waitingEngine\<lparr>out :=
                       [Log LvlInfo ''Start processing Assertion'',
                        Log LvlDebug ''Assertion is inconsistent with cached elements.'',
                        Log LvlDebug ''Finished handling section'']\<rparr>)"
  by (simp add: assert_section_def assertAssertion_def getAssertionValidity_def
        handleAssertion_def handlePendingQueries_def pendingQueries_GetAllAndDelete_def
        sendQueryAnswer_def OTIP4Addr_def OTDelegation_def
        exampleEnv_def exampleAssertion_def waitingEngine_def exampleEngine_def
        emit_def Let_def)

section \<open>What is cached is valid no longer than the cap allows\<close>

lemma cachesGrow_same:
  "assertionsCache st' = assertionsCache st \<Longrightarrow> negAssertionCache st' = negAssertionCache st
   \<Longrightarrow> cachesGrow env st st'"
  unfolding cachesGrow_def by (intro exI [of _ "[]"]) simp

lemma cachesGrow_trans:
  assumes "cachesGrow env st st'" and "cachesGrow env st' st''"
  shows "cachesGrow env st st''"
proof -
  from assms(1) obtain a1 n1 where 1:
    "assertionsCache st' = assertionsCache st @ a1" "negAssertionCache st' = negAssertionCache st @ n1"
    "list_all (\<lambda>e. acv_validUntil (snd e) \<le> now env + MaxCacheAssertionValidity env
                     \<and> acv_validUntil (snd e) =
                         min (as_ValidUntil (acv_section (snd e)))
                             (now env + MaxCacheAssertionValidity env)) a1"
    "list_all (\<lambda>v. ncv_validUntil v \<le> now env + maxCacheValidity env (ncv_section v)
                     \<and> ncv_validUntil v =
                         min (sectionValidUntil (ncv_section v))
                             (now env + maxCacheValidity env (ncv_section v))) n1"
    unfolding cachesGrow_def by blast
  from assms(2) obtain a2 n2 where 2:
    "assertionsCache st'' = assertionsCache st' @ a2" "negAssertionCache st'' = negAssertionCache st' @ n2"
    "list_all (\<lambda>e. acv_validUntil (snd e) \<le> now env + MaxCacheAssertionValidity env
                     \<and> acv_validUntil (snd e) =
                         min (as_ValidUntil (acv_section (snd e)))
                             (now env + MaxCacheAssertionValidity env)) a2"
    "list_all (\<lambda>v. ncv_validUntil v \<le> now env + maxCacheValidity env (ncv_section v)
                     \<and> ncv_validUntil v =
                         min (sectionValidUntil (ncv_section v))
                             (now env + maxCacheValidity env (ncv_section v))) n2"
    unfolding cachesGrow_def by blast
  show ?thesis
    unfolding cachesGrow_def
    by (rule exI [of _ "a1 @ a2"], rule exI [of _ "n1 @ n2"]) (simp add: 1 2)
qed

lemma cachesGrow_assertAssertion:
  assumes recA: "assertionsCache_Add env = recordAssertion"
  shows "cachesGrow env st (stateAfter (assertAssertion env a isAuthoritative token st))"
proof (cases "as_ValidFrom a > now env + MaxCacheAssertionValidity env")
  case True
  then show ?thesis
    by (auto intro!: cachesGrow_same
          simp: assertAssertion_def getAssertionValidity_def stateAfter_def Let_def)
next
  case False
  show ?thesis
  proof (cases "as_Content a")
    case Nil
    with False show ?thesis
      by (auto intro!: cachesGrow_same
            simp: assertAssertion_def getAssertionValidity_def shouldAssertionBeCached_def
                  stateAfter_def Let_def)
  next
    case (Cons c cs)
    with False show ?thesis
      unfolding cachesGrow_def
      by (auto simp: assertAssertion_def getAssertionValidity_def shouldAssertionBeCached_def
                  stateAfter_def Let_def recA recordAssertion_def)
  qed
qed

lemma cachesGrow_assertAssertions:
  assumes recA: "assertionsCache_Add env = recordAssertion"
  shows "cachesGrow env st (finalState (assertAssertions env as isAuthoritative st))"
proof (induction as arbitrary: st)
  case Nil
  show ?case by (simp add: finalState_def cachesGrow_same)
next
  case (Cons a as)
  have step: "cachesGrow env st (stateAfter (assertAssertion env a isAuthoritative emptyToken st))"
    using recA by (rule cachesGrow_assertAssertion)
  show ?case
  proof (cases "assertAssertion env a isAuthoritative emptyToken st")
    case (Inl p)
    with step show ?thesis
      by (cases p) (simp add: finalState_def stateAfter_def)
  next
    case (Inr r)
    obtain ok st1 where r: "r = (ok, st1)" by (cases r)
    from step Inr r have "cachesGrow env st st1" by (simp add: stateAfter_def)
    moreover have "cachesGrow env st1 (finalState (assertAssertions env as isAuthoritative st1))"
      by (rule Cons.IH)
    ultimately show ?thesis
      using Inr r by (simp add: cachesGrow_trans)
  qed
qed

lemma assertShard_cached:
  assumes "\<not> ss_ValidFrom shard > now env + MaxCacheShardValidity env"
  shows "assertShard env shard isAuthoritative token st =
           (case assertAssertions env (ss_Content shard) isAuthoritative
                   ((emit (Log LvlInfo ''Shard will be cached'')
                      (if ss_ValidUntil shard > now env + MaxCacheShardValidity env
                       then emit (Log LvlWarn ''Reduced the validity of the shard in the cache. Validity exceeded upper bound'') st
                       else st))
                    \<lparr>negAssertionCache :=
                       negAssertionCache_Add env (ss_Context shard) (ss_SubjectZone shard)
                         isAuthoritative
                         \<lparr>ncv_section = Shard shard, ncv_validFrom = ss_ValidFrom shard,
                          ncv_validUntil = min (ss_ValidUntil shard)
                                               (now env + MaxCacheShardValidity env)\<rparr>
                         (negAssertionCache st)\<rparr>) of
              Inl p \<Rightarrow> Inl p
            | Inr st4 \<Rightarrow> Inr (True, st4))"
  using assms
  by (simp add: assertShard_def getShardValidity_def shouldShardBeCached_def Let_def min_def)

lemma cachesGrow_assertShard:
  assumes recA: "assertionsCache_Add env = recordAssertion"
    and recN: "negAssertionCache_Add env = recordNegAssertion"
  shows "cachesGrow env st (stateAfter (assertShard env shard isAuthoritative token st))"
proof (cases "ss_ValidFrom shard > now env + MaxCacheShardValidity env")
  case True
  then show ?thesis
    by (auto intro!: cachesGrow_same
          simp: assertShard_def getShardValidity_def stateAfter_def Let_def)
next
  case False
  define st3 where "st3 =
    (emit (Log LvlInfo ''Shard will be cached'')
       (if ss_ValidUntil shard > now env + MaxCacheShardValidity env
        then emit (Log LvlWarn ''Reduced the validity of the shard in the cache. Validity exceeded upper bound'') st
        else st))
      \<lparr>negAssertionCache :=
         negAssertionCache_Add env (ss_Context shard) (ss_SubjectZone shard) isAuthoritative
           \<lparr>ncv_section = Shard shard, ncv_validFrom = ss_ValidFrom shard,
            ncv_validUntil = min (ss_ValidUntil shard) (now env + MaxCacheShardValidity env)\<rparr>
           (negAssertionCache st)\<rparr>"
  have g1: "cachesGrow env st st3"
    unfolding cachesGrow_def st3_def
    by (rule exI [of _ "[]"])
       (simp add: recN recordNegAssertion_def maxCacheValidity_def sectionValidUntil_def)
  have g2: "cachesGrow env st3 (finalState (assertAssertions env (ss_Content shard) isAuthoritative st3))"
    using recA by (rule cachesGrow_assertAssertions)
  have eq: "stateAfter (assertShard env shard isAuthoritative token st) =
            finalState (assertAssertions env (ss_Content shard) isAuthoritative st3)"
    unfolding assertShard_cached [OF False] st3_def [symmetric]
    by (cases "assertAssertions env (ss_Content shard) isAuthoritative st3")
       (simp_all add: stateAfter_def finalState_def)
  from g1 g2 show ?thesis unfolding eq by (rule cachesGrow_trans)
qed

lemma cachesGrow_assertZoneContent:
  assumes recA: "assertionsCache_Add env = recordAssertion"
    and recN: "negAssertionCache_Add env = recordNegAssertion"
  shows "cachesGrow env st (finalState (assertZoneContent env vs isAuthoritative st))"
proof (induction vs arbitrary: st)
  case Nil
  show ?case by (simp add: finalState_def cachesGrow_same)
next
  case (Cons v vs)
  have other: "cachesGrow env st
      (finalState (assertZoneContent env vs isAuthoritative
         (emit (Log LvlWarn ''Not supported type. Expected *ShardSection or *AssertionSection.'') st)))"
  proof -
    have "cachesGrow env st (emit (Log LvlWarn ''Not supported type. Expected *ShardSection or *AssertionSection.'') st)"
      by (simp add: cachesGrow_same)
    then show ?thesis
      using Cons.IH by (rule cachesGrow_trans)
  qed
  show ?case
  proof (cases v)
    case (Assertion a)
    have step: "cachesGrow env st (stateAfter (assertAssertion env a isAuthoritative emptyToken st))"
      using recA by (rule cachesGrow_assertAssertion)
    show ?thesis
    proof (cases "assertAssertion env a isAuthoritative emptyToken st")
      case (Inl p)
      with step Assertion show ?thesis
        by (cases p) (simp add: finalState_def stateAfter_def)
    next
      case (Inr r)
      obtain ok st1 where r: "r = (ok, st1)" by (cases r)
      from step Inr r have g1: "cachesGrow env st st1" by (simp add: stateAfter_def)
      have eq: "assertZoneContent env (v # vs) isAuthoritative st =
                assertZoneContent env vs isAuthoritative st1"
        using Inr r Assertion by simp
      show ?thesis
        unfolding eq using g1 Cons.IH by (rule cachesGrow_trans)
    qed
  next
    case (Shard sh)
    have step: "cachesGrow env st (stateAfter (assertShard env sh isAuthoritative emptyToken st))"
      using recA recN by (rule cachesGrow_assertShard)
    show ?thesis
    proof (cases "assertShard env sh isAuthoritative emptyToken st")
      case (Inl p)
      with step Shard show ?thesis
        by (cases p) (simp add: finalState_def stateAfter_def)
    next
      case (Inr r)
      obtain ok st1 where r: "r = (ok, st1)" by (cases r)
      from step Inr r have g1: "cachesGrow env st st1" by (simp add: stateAfter_def)
      have eq: "assertZoneContent env (v # vs) isAuthoritative st =
                assertZoneContent env vs isAuthoritative st1"
        using Inr r Shard by simp
      show ?thesis
        unfolding eq using g1 Cons.IH by (rule cachesGrow_trans)
    qed
  next
    case (Zone z)
    then have eq: "assertZoneContent env (v # vs) isAuthoritative st =
        assertZoneContent env vs isAuthoritative
          (emit (Log LvlWarn ''Not supported type. Expected *ShardSection or *AssertionSection.'') st)"
      by simp
    show ?thesis unfolding eq by (rule other)
  next
    case OtherSection
    then have eq: "assertZoneContent env (v # vs) isAuthoritative st =
        assertZoneContent env vs isAuthoritative
          (emit (Log LvlWarn ''Not supported type. Expected *ShardSection or *AssertionSection.'') st)"
      by simp
    show ?thesis unfolding eq by (rule other)
  qed
qed

lemma assertZone_cached:
  assumes "\<not> zs_ValidFrom zone > now env + MaxCacheZoneValidity env"
  shows "assertZone env zone isAuthoritative token st =
           (case assertZoneContent env (zs_Content zone) isAuthoritative
                   ((emit (Log LvlInfo ''Zone will be cached'')
                      (if zs_ValidUntil zone > now env + MaxCacheZoneValidity env
                       then emit (Log LvlWarn ''Reduced the validity of the zone in the cache. Validity exceeded upper bound'') st
                       else st))
                    \<lparr>negAssertionCache :=
                       negAssertionCache_Add env (zs_Context zone) (zs_SubjectZone zone)
                         isAuthoritative
                         \<lparr>ncv_section = Zone zone, ncv_validFrom = zs_ValidFrom zone,
                          ncv_validUntil = min (zs_ValidUntil zone)
                                               (now env + MaxCacheZoneValidity env)\<rparr>
                         (negAssertionCache st)\<rparr>) of
              Inl p \<Rightarrow> Inl p
            | Inr st4 \<Rightarrow> Inr (True, st4))"
  using assms
  by (simp add: assertZone_def getZoneValidity_def shouldZoneBeCached_def Let_def min_def)

lemma cachesGrow_assertZone:
  assumes recA: "assertionsCache_Add env = recordAssertion"
    and recN: "negAssertionCache_Add env = recordNegAssertion"
  shows "cachesGrow env st (stateAfter (assertZone env zone isAuthoritative token st))"
proof (cases "zs_ValidFrom zone > now env + MaxCacheZoneValidity env")
  case True
  then show ?thesis
    by (auto intro!: cachesGrow_same
          simp: assertZone_def getZoneValidity_def stateAfter_def Let_def)
next
  case False
  define st3 where "st3 =
    (emit (Log LvlInfo ''Zone will be cached'')
       (if zs_ValidUntil zone > now env + MaxCacheZoneValidity env
        then emit (Log LvlWarn ''Reduced the validity of the zone in the cache. Validity exceeded upper bound'') st
        else st))
      \<lparr>negAssertionCache :=
         negAssertionCache_Add env (zs_Context zone) (zs_SubjectZone zone) isAuthoritative
           \<lparr>ncv_section = Zone zone, ncv_validFrom = zs_ValidFrom zone,
            ncv_validUntil = min (zs_ValidUntil zone) (now env + MaxCacheZoneValidity env)\<rparr>
           (negAssertionCache st)\<rparr>"
  have g1: "cachesGrow env st st3"
    unfolding cachesGrow_def st3_def
    by (rule exI [of _ "[]"])
       (simp add: recN recordNegAssertion_def maxCacheValidity_def sectionValidUntil_def)
  have g2: "cachesGrow env st3 (finalState (assertZoneContent env (zs_Content zone) isAuthoritative st3))"
    using recA recN by (rule cachesGrow_assertZoneContent)
  have eq: "stateAfter (assertZone env zone isAuthoritative token st) =
            finalState (assertZoneContent env (zs_Content zone) isAuthoritative st3)"
    unfolding assertZone_cached [OF False] st3_def [symmetric]
    by (cases "assertZoneContent env (zs_Content zone) isAuthoritative st3")
       (simp_all add: stateAfter_def finalState_def)
  from g1 g2 show ?thesis unfolding eq by (rule cachesGrow_trans)
qed

lemma handleAssertion_caches:
  "assertionsCache (finalState (handleAssertion env a token st)) = assertionsCache st"
  "negAssertionCache (finalState (handleAssertion env a token st)) = negAssertionCache st"
  by (cases "as_Content a";
      simp add: handleAssertion_def finalState_def Let_def split: prod.splits)+

lemma finalState_finish:
  "assertionsCache (finalState (case r of Inl p \<Rightarrow> Inl p | Inr st' \<Rightarrow> Inr (emit e st'))) =
     assertionsCache (finalState r)"
  "negAssertionCache (finalState (case r of Inl p \<Rightarrow> Inl p | Inr st' \<Rightarrow> Inr (emit e st'))) =
     negAssertionCache (finalState r)"
  by (cases r; simp add: finalState_def split: prod.splits)+

lemma cachesGrow_cong:
  "cachesGrow env st st' \<Longrightarrow> assertionsCache st'' = assertionsCache st'
   \<Longrightarrow> negAssertionCache st'' = negAssertionCache st' \<Longrightarrow> cachesGrow env st st''"
  by (simp add: cachesGrow_def)

lemma cachesGrow_start:
  "cachesGrow env st0 st' \<Longrightarrow> assertionsCache st0 = assertionsCache st
   \<Longrightarrow> negAssertionCache st0 = negAssertionCache st \<Longrightarrow> cachesGrow env st st'"
  by (simp add: cachesGrow_def)

lemma cachesGrow_assert_section:
  assumes recA: "assertionsCache_Add env = recordAssertion"
    and recN: "negAssertionCache_Add env = recordNegAssertion"
  shows "cachesGrow env st (finalState (assert_section env sws isAuthoritative st))"
proof -
  let ?fin = "Log LvlDebug ''Finished handling section''"
  show ?thesis
  proof (cases "sws_Section sws")
    case (Assertion a)
    let ?st1 = "emit (Log LvlInfo ''Start processing Assertion'') st"
    let ?st2 = "emit (Log LvlDebug ''Assertion is consistent with cached elements.'') ?st1"
    show ?thesis
    proof (cases "isAssertionConsistent env (assertionsCache st) (negAssertionCache st) a")
      case False
      with Assertion show ?thesis
        by (simp add: assert_section_def Let_def finalState_def cachesGrow_same)
    next
      case True
      have step: "cachesGrow env ?st2
          (stateAfter (assertAssertion env a isAuthoritative (sws_Token sws) ?st2))"
        using recA by (rule cachesGrow_assertAssertion)
      show ?thesis
      proof (cases "assertAssertion env a isAuthoritative (sws_Token sws) ?st2")
        case (Inl p)
        obtain e s where p: "p = (e, s)" by (cases p)
        from step Inl p have "cachesGrow env ?st2 s" by (simp add: stateAfter_def)
        then have "cachesGrow env st s" by (rule cachesGrow_start) simp_all
        moreover have "finalState (assert_section env sws isAuthoritative st) = s"
          using Assertion True Inl p by (simp add: assert_section_def Let_def finalState_def)
        ultimately show ?thesis by simp
      next
        case (Inr r)
        obtain ok s where r: "r = (ok, s)" by (cases r)
        from step Inr r have "cachesGrow env ?st2 s" by (simp add: stateAfter_def)
        then have g: "cachesGrow env st s" by (rule cachesGrow_start) simp_all
        have eq: "assert_section env sws isAuthoritative st =
              (case (if ok then handleAssertion env a (sws_Token sws) s else Inr s) of
                 Inl p \<Rightarrow> Inl p | Inr st' \<Rightarrow> Inr (emit ?fin st'))"
          using Assertion True Inr r by (simp add: assert_section_def Let_def)
        show ?thesis
          unfolding eq
          by (rule cachesGrow_cong [OF g])
             (simp_all add: finalState_finish handleAssertion_caches, simp_all add: finalState_def)
      qed
    qed
  next
    case (Shard sh)
    let ?st1 = "emit (Log LvlInfo ''Start processing Shard'') st"
    let ?st2 = "emit (Log LvlDebug ''Shard is consistent with cached elements.'') ?st1"
    show ?thesis
    proof (cases "isShardConsistent env (assertionsCache st) (negAssertionCache st) sh")
      case False
      with Shard show ?thesis
        by (simp add: assert_section_def Let_def finalState_def cachesGrow_same)
    next
      case True
      have step: "cachesGrow env ?st2
          (stateAfter (assertShard env sh isAuthoritative (sws_Token sws) ?st2))"
        using recA recN by (rule cachesGrow_assertShard)
      show ?thesis
      proof (cases "assertShard env sh isAuthoritative (sws_Token sws) ?st2")
        case (Inl p)
        obtain e s where p: "p = (e, s)" by (cases p)
        from step Inl p have "cachesGrow env ?st2 s" by (simp add: stateAfter_def)
        then have "cachesGrow env st s" by (rule cachesGrow_start) simp_all
        moreover have "finalState (assert_section env sws isAuthoritative st) = s"
          using Shard True Inl p by (simp add: assert_section_def Let_def finalState_def)
        ultimately show ?thesis by simp
      next
        case (Inr r)
        obtain ok s where r: "r = (ok, s)" by (cases r)
        from step Inr r have "cachesGrow env ?st2 s" by (simp add: stateAfter_def)
        then have g: "cachesGrow env st s" by (rule cachesGrow_start) simp_all
        have eq: "finalState (assert_section env sws isAuthoritative st) =
              emit ?fin (if ok then handlePendingQueries env (Shard sh) (sws_Token sws) s else s)"
          using Shard True Inr r by (simp add: assert_section_def Let_def finalState_def)
        show ?thesis
          unfolding eq by (rule cachesGrow_cong [OF g]) simp_all
      qed
    qed
  next
    case (Zone z)
    let ?st1 = "emit (Log LvlInfo ''Start processing zone'') st"
    let ?st2 = "emit (Log LvlDebug ''Zone is consistent with cached elements.'') ?st1"
    show ?thesis
    proof (cases "isZoneConsistent env (assertionsCache st) (negAssertionCache st) z")
      case False
      with Zone show ?thesis
        by (simp add: assert_section_def Let_def finalState_def cachesGrow_same)
    next
      case True
      have step: "cachesGrow env ?st2
          (stateAfter (assertZone env z isAuthoritative (sws_Token sws) ?st2))"
        using recA recN by (rule cachesGrow_assertZone)
      show ?thesis
      proof (cases "assertZone env z isAuthoritative (sws_Token sws) ?st2")
        case (Inl p)
        obtain e s where p: "p = (e, s)" by (cases p)
        from step Inl p have "cachesGrow env ?st2 s" by (simp add: stateAfter_def)
        then have "cachesGrow env st s" by (rule cachesGrow_start) simp_all
        moreover have "finalState (assert_section env sws isAuthoritative st) = s"
          using Zone True Inl p by (simp add: assert_section_def Let_def finalState_def)
        ultimately show ?thesis by simp
      next
        case (Inr r)
        obtain ok s where r: "r = (ok, s)" by (cases r)
        from step Inr r have "cachesGrow env ?st2 s" by (simp add: stateAfter_def)
        then have g: "cachesGrow env st s" by (rule cachesGrow_start) simp_all
        have eq: "finalState (assert_section env sws isAuthoritative st) =
              emit ?fin (if ok then handlePendingQueries env (Zone z) (sws_Token sws) s else s)"
          using Zone True Inr r by (simp add: assert_section_def Let_def finalState_def)
        show ?thesis
          unfolding eq by (rule cachesGrow_cong [OF g]) simp_all
      qed
    qed
  next
    case OtherSection
    then show ?thesis
      by (simp add: assert_section_def finalState_def cachesGrow_same)
  qed
qed

text \<open>
  C6. Whatever assert adds to a cache is stored with a validUntil that does not exceed
  now plus the maximum cache validity of its kind (assertion, shard or zone): it is the
  section's own validUntil, cut down to that bound when it is larger. The two caches are
  observed through an Add that records each value; this holds for the section handed to
  assert and for every assertion and shard contained in it, also when a later step
  panics.
\<close>

theorem cached_validUntil_within_cap:
  assumes recA: "assertionsCache_Add env = recordAssertion"
    and recN: "negAssertionCache_Add env = recordNegAssertion"
  shows "\<exists>newA newN.
        assertionsCache (finalState (assert_section env sws isAuthoritative st)) =
          assertionsCache st @ newA
      \<and> negAssertionCache (finalState (assert_section env sws isAuthoritative st)) =
          negAssertionCache st @ newN
      \<and> list_all (\<lambda>e. acv_validUntil (snd e) \<le> now env + MaxCacheAssertionValidity env
                     \<and> acv_validUntil (snd e) =
                         min (as_ValidUntil (acv_section (snd e)))
                             (now env + MaxCacheAssertionValidity env)) newA
      \<and> list_all (\<lambda>v. ncv_validUntil v \<le> now env + maxCacheValidity env (ncv_section v)
                     \<and> ncv_validUntil v =
                         min (sectionValidUntil (ncv_section v))
                             (now env + maxCacheValidity env (ncv_section v))) newN"
  using cachesGrow_assert_section [OF recA recN, of st sws isAuthoritative]
  unfolding cachesGrow_def .

theorem cached_validUntil_within_cap_witness:
  "assertionsCache_Add exampleEnv = recordAssertion
   \<and> negAssertionCache_Add exampleEnv = recordNegAssertion
   \<and> map (\<lambda>e. acv_validUntil (snd e))
        (assertionsCache (finalState (assert_section exampleEnv
             \<lparr>sws_Section = Zone exampleZone, sws_Sender = exampleUpstream,
              sws_Token = exampleToken\<rparr> True exampleEngine))) = [1060, 1100]
   \<and> map ncv_validUntil
        (negAssertionCache (finalState (assert_section exampleEnv
             \<lparr>sws_Section = Zone exampleZone, sws_Sender = exampleUpstream,
              sws_Token = exampleToken\<rparr> True exampleEngine))) = [1300, 1200]"
  using cached_validUntil_within_cap [of exampleEnv
          "\<lparr>sws_Section = Zone exampleZone, sws_Sender = exampleUpstream,
            sws_Token = exampleToken\<rparr>" True exampleEngine]
  by (simp add: exampleEnv_def exampleEngine_def exampleZone_def exampleShard_def
        exampleAssertion_def recordAssertion_def recordNegAssertion_def finalState_def
        assert_section_def assertZone_def getZoneValidity_def shouldZoneBeCached_def
        assertShard_def getShardValidity_def shouldShardBeCached_def
        assertAssertion_def getAssertionValidity_def shouldAssertionBeCached_def
        handlePendingQueries_def pendingQueries_GetAllAndDelete_def emit_def Let_def)

section \<open>Only the first object of an assertion is looked at\<close>

lemma handleAssertion_Cons:
  assumes "as_Content a = c # cs"
  shows "handleAssertion env a token st =
     Inr (handlePendingQueries env (Assertion a) token
       (if obj_Type c = OTDelegation
        then wakeSections
               (if snd (fst (pendingSignatures_GetAllAndDelete env (as_Context a) (as_SubjectZone a)
                               (pendingSignatures st)))
                then fst (fst (pendingSignatures_GetAllAndDelete env (as_Context a)
                                 (as_SubjectZone a) (pendingSignatures st)))
                else [])
               (st\<lparr>pendingSignatures :=
                    snd (pendingSignatures_GetAllAndDelete env (as_Context a) (as_SubjectZone a)
                           (pendingSignatures st))\<rparr>)
        else st))"
  using assms by (simp add: handleAssertion_def Let_def split: prod.splits)

text \<open>
  C9. For an assertion with at least one object, only the first object counts. When the
  assertion is cached (its validFrom is not beyond now + MaxCacheAssertionValidity),
  assertAssertion adds it to the assertion cache under the type of Content[0].
  handleAssertion runs the delegation wake-up (it empties the pending signatures of the
  assertion's context and zone and puts the sections found on the normal channel)
  exactly if Content[0] has the delegation type, and otherwise leaves the pending
  signatures alone and puts nothing on the channel; then it answers the waiters of the
  token. The objects after the first appear in neither.
\<close>

theorem assertion_first_object_only:
  assumes content: "as_Content a = c # cs"
  shows "(as_ValidFrom a \<le> now env + MaxCacheAssertionValidity env \<longrightarrow>
          (\<exists>st'. assertAssertion env a isAuthoritative token st = Inr (True, st')
             \<and> assertionsCache st' =
                 assertionsCache_Add env (as_Context a) (as_SubjectZone a) (as_SubjectName a)
                   (obj_Type c) isAuthoritative
                   \<lparr>acv_section = a, acv_validFrom = as_ValidFrom a,
                    acv_validUntil = min (as_ValidUntil a)
                                         (now env + MaxCacheAssertionValidity env)\<rparr>
                   (assertionsCache st)))
       \<and> (\<exists>st'. handleAssertion env a token st = Inr st'
             \<and> pendingSignatures st' =
                 (if obj_Type c = OTDelegation
                  then snd (pendingSignatures_GetAllAndDelete env (as_Context a) (as_SubjectZone a)
                              (pendingSignatures st))
                  else pendingSignatures st)
             \<and> out st' = out st @
                 (if obj_Type c = OTDelegation
                     \<and> snd (fst (pendingSignatures_GetAllAndDelete env (as_Context a)
                                    (as_SubjectZone a) (pendingSignatures st)))
                  then map NormalChannel
                         (fst (fst (pendingSignatures_GetAllAndDelete env (as_Context a)
                                      (as_SubjectZone a) (pendingSignatures st))))
                  else [])
                 @ concat (map (\<lambda>v.
                     if pq_validUntil v > now env
                     then (case ParseRainsMsg env
                                  \<lparr>rm_Content = [Assertion a], rm_Token = pq_token v\<rparr> of
                             None \<Rightarrow> [Log LvlError ''Was not able to parse message'']
                           | Some byteMsg \<Rightarrow> [SendTo byteMsg (pq_connInfo v)])
                     else [Log LvlInfo ''Query expired in pendingQuery queue.''])
                     (map snd (filter (\<lambda>e. fst e = token) (pqc_entries (pendingQueries st))))))"
proof (intro conjI impI)
  assume "as_ValidFrom a \<le> now env + MaxCacheAssertionValidity env"
  then show "\<exists>st'. assertAssertion env a isAuthoritative token st = Inr (True, st')
             \<and> assertionsCache st' =
                 assertionsCache_Add env (as_Context a) (as_SubjectZone a) (as_SubjectName a)
                   (obj_Type c) isAuthoritative
                   \<lparr>acv_section = a, acv_validFrom = as_ValidFrom a,
                    acv_validUntil = min (as_ValidUntil a)
                                         (now env + MaxCacheAssertionValidity env)\<rparr>
                   (assertionsCache st)"
    using content
    by (simp add: assertAssertion_def getAssertionValidity_def shouldAssertionBeCached_def
          Let_def min_def)
next
  show "\<exists>st'. handleAssertion env a token st = Inr st'
             \<and> pendingSignatures st' =
                 (if obj_Type c = OTDelegation
                  then snd (pendingSignatures_GetAllAndDelete env (as_Context a) (as_SubjectZone a)
                              (pendingSignatures st))
                  else pendingSignatures st)
             \<and> out st' = out st @
                 (if obj_Type c = OTDelegation
                     \<and> snd (fst (pendingSignatures_GetAllAndDelete env (as_Context a)
                                    (as_SubjectZone a) (pendingSignatures st)))
                  then map NormalChannel
                         (fst (fst (pendingSignatures_GetAllAndDelete env (as_Context a)
                                      (as_SubjectZone a) (pendingSignatures st))))
                  else [])
                 @ concat (map (\<lambda>v.
                     if pq_validUntil v > now env
                     then (case ParseRainsMsg env
                                  \<lparr>rm_Content = [Assertion a], rm_Token = pq_token v\<rparr> of
                             None \<Rightarrow> [Log LvlError ''Was not able to parse message'']
                           | Some byteMsg \<Rightarrow> [SendTo byteMsg (pq_connInfo v)])
                     else [Log LvlInfo ''Query expired in pendingQuery queue.''])
                     (map snd (filter (\<lambda>e. fst e = token) (pqc_entries (pendingQueries st)))))"
    unfolding handleAssertion_Cons [OF content]
    by (simp add: handlePendingQueries_out wakeSections_out
          pendingQueries_GetAllAndDelete_def Let_def)
qed

theorem assertion_first_object_only_witness:
  "(\<exists>st'. assertAssertion exampleEnv exampleDelegation False exampleToken exampleEngine =
            Inr (True, st')
          \<and> assertionsCache st' =
              [(OTDelegation, \<lparr>acv_section = exampleDelegation, acv_validFrom = 990,
                               acv_validUntil = 1060\<rparr>)])
   \<and> (\<exists>st'. handleAssertion exampleWakeEnv exampleDelegation exampleToken waitingEngine = Inr st'
          \<and> out st' =
              [NormalChannel \<lparr>mss_Section = Shard exampleShard, mss_Sender = exampleUpstream,
                              mss_Token = emptyToken\<rparr>,
               SendTo [9, 1] exampleClient])
   \<and> (\<exists>st'. handleAssertion exampleWakeEnv exampleAssertion exampleToken waitingEngine = Inr st'
          \<and> out st' = [SendTo [9, 1] exampleClient])"
proof -
  have d: "as_Content exampleDelegation =
      \<lparr>obj_Type = OTDelegation,
       obj_Value = VPublicKey \<lparr>pk_Type = 1, pk_KeySpace = 0, pk_Key = Ed25519Key [1, 2, 3],
                               pk_ValidSince = 10000, pk_ValidUntil = 50000\<rparr>\<rparr>
      # [\<lparr>obj_Type = OTIP4Addr, obj_Value = VString ''127.0.0.1''\<rparr>]"
    by (simp add: exampleDelegation_def)
  have a: "as_Content exampleAssertion =
      \<lparr>obj_Type = OTIP4Addr, obj_Value = VString ''127.0.0.1''\<rparr> # []"
    by (simp add: exampleAssertion_def)
  show ?thesis
    using assertion_first_object_only [OF d, of exampleEnv False exampleToken exampleEngine]
          assertion_first_object_only [OF d, of exampleWakeEnv False exampleToken waitingEngine]
          assertion_first_object_only [OF a, of exampleWakeEnv False exampleToken waitingEngine]
    by (simp add: exampleEnv_def exampleWakeEnv_def exampleEngine_def waitingEngine_def
          exampleDelegation_def exampleAssertion_def recordAssertion_def
          OTDelegation_def OTIP4Addr_def)
qed

section \<open>The validity window of a verified section\<close>




end
